theory Spec2Isabelle
  imports Complex_Main
begin

section \<open>Data model: a table with a timestamp index and named columns\<close>

text \<open>
  The notebook \<^verbatim>\<open>06_train_test_split.ipynb\<close> works on one pandas table. A table is a
  row index (the timestamps) and an ordered list of named columns, every column as long
  as the index. A cell is a number or missing (pandas' NaN), so a cell is a
  \<open>real option\<close> with \<open>None\<close> for NaN. Floating-point numbers are idealised as
  reals: sums, means, sine and cosine are exact.

  The timestamp type is any linear order; \<open>df.index.dayofyear\<close>, a function of the
  timestamp alone, is passed to the enrichment as the parameter \<open>doy\<close>.
\<close>

type_synonym cell = "real option"
type_synonym series = "cell list"

record 'ts frame =
  index :: "'ts list"
  columns :: "(string \<times> series) list"

datatype error = KeyError string

definition nrows :: "'ts frame \<Rightarrow> nat" where
  "nrows df = length (index df)"

text \<open>\<open>df[c]\<close>: the column named \<open>c\<close>, or a KeyError.\<close>

definition get_col :: "'ts frame \<Rightarrow> string \<Rightarrow> error + series" where
  "get_col df c = (case map_of (columns df) c of None \<Rightarrow> Inl (KeyError c) | Some s \<Rightarrow> Inr s)"

text \<open>\<open>df[cs]\<close> for a list of names: the columns in that order, or a KeyError for the
  first name that is absent.\<close>

fun get_cols :: "'ts frame \<Rightarrow> string list \<Rightarrow> error + series list" where
  "get_cols df [] = Inr []"
| "get_cols df (c # cs) =
     (case get_col df c of Inl e \<Rightarrow> Inl e
      | Inr s \<Rightarrow> (case get_cols df cs of Inl e \<Rightarrow> Inl e | Inr ss \<Rightarrow> Inr (s # ss)))"

text \<open>\<open>df[c] = s\<close>: an existing column is replaced where it stands, a new one is
  appended after the others.\<close>

fun assign_col :: "(string \<times> series) list \<Rightarrow> string \<Rightarrow> series \<Rightarrow> (string \<times> series) list" where
  "assign_col [] c s = [(c, s)]"
| "assign_col ((c', s') # cs) c s =
     (if c' = c then (c, s) # cs else (c', s') # assign_col cs c s)"

definition set_col :: "'ts frame \<Rightarrow> string \<Rightarrow> series \<Rightarrow> 'ts frame" where
  "set_col df c s = df\<lparr>columns := assign_col (columns df) c s\<rparr>"

text \<open>A table is well formed when its column names are distinct and every column has one
  cell per row.\<close>

definition wf_frame :: "'ts frame \<Rightarrow> bool" where
  "wf_frame df \<longleftrightarrow>
     distinct (map fst (columns df)) \<and>
     list_all (\<lambda>cs. length (snd cs) = length (index df)) (columns df)"

subsection \<open>Selecting rows\<close>

text \<open>Rows by position (\<open>iloc\<close> with a list of positions).\<close>

definition take_rows :: "nat list \<Rightarrow> 'ts frame \<Rightarrow> 'ts frame" where
  "take_rows ps df =
     \<lparr>index = map (\<lambda>i. index df ! i) ps,
      columns = map (\<lambda>cs. (fst cs, map (\<lambda>i. snd cs ! i) ps)) (columns df)\<rparr>"

text \<open>\<open>df.iloc[:k]\<close>, \<open>df.iloc[k:]\<close> and \<open>df.tail(k)\<close> for \<open>k \<ge> 0\<close>.\<close>

definition head_rows :: "nat \<Rightarrow> 'ts frame \<Rightarrow> 'ts frame" where
  "head_rows k df =
     \<lparr>index = take k (index df),
      columns = map (\<lambda>cs. (fst cs, take k (snd cs))) (columns df)\<rparr>"

definition drop_rows :: "nat \<Rightarrow> 'ts frame \<Rightarrow> 'ts frame" where
  "drop_rows k df =
     \<lparr>index = drop k (index df),
      columns = map (\<lambda>cs. (fst cs, drop k (snd cs))) (columns df)\<rparr>"

definition tail_rows :: "nat \<Rightarrow> 'ts frame \<Rightarrow> 'ts frame" where
  "tail_rows k df = drop_rows (nrows df - k) df"

text \<open>\<open>df.sort_index()\<close>: the rows in ascending order of their timestamps. Rows with equal
  timestamps keep their relative order here (pandas leaves the order of ties to the
  sorting algorithm).\<close>

definition sort_index :: "('ts::linorder) frame \<Rightarrow> 'ts frame" where
  "sort_index df = take_rows (sort_key (\<lambda>i. index df ! i) [0..<nrows df]) df"

text \<open>\<open>pd.concat([a, b])\<close>: the rows of \<open>a\<close>, then the rows of \<open>b\<close>. The columns are those
  of \<open>a\<close> followed by those only \<open>b\<close> has; a table that lacks a column gets missing
  cells there.\<close>

definition col_or_nan :: "'ts frame \<Rightarrow> string \<Rightarrow> series" where
  "col_or_nan df c =
     (case map_of (columns df) c of None \<Rightarrow> replicate (nrows df) None | Some s \<Rightarrow> s)"

definition concat_frames :: "'ts frame \<Rightarrow> 'ts frame \<Rightarrow> 'ts frame" where
  "concat_frames a b =
     \<lparr>index = index a @ index b,
      columns = map (\<lambda>c. (c, col_or_nan a c @ col_or_nan b c))
        (map fst (columns a) @ filter (\<lambda>c. c \<notin> set (map fst (columns a))) (map fst (columns b)))\<rparr>"

text \<open>\<open>xs.difference(ys)\<close> on indexes: the labels of \<open>xs\<close> that are not in \<open>ys\<close>, sorted and
  without duplicates.\<close>

definition index_difference :: "('ts::linorder) list \<Rightarrow> 'ts list \<Rightarrow> 'ts list" where
  "index_difference xs ys = sort (remdups (filter (\<lambda>x. x \<notin> set ys) xs))"

text \<open>\<open>df.loc[labels]\<close>: for each label in turn, every row that carries it. The labels
  used here always come from the table's own index, so none is absent.\<close>

definition loc_labels :: "'ts list \<Rightarrow> 'ts frame \<Rightarrow> 'ts frame" where
  "loc_labels labels df =
     take_rows (concat (map (\<lambda>l. filter (\<lambda>i. index df ! i = l) [0..<nrows df]) labels)) df"

section \<open>Series operations\<close>

text \<open>\<open>s.shift(k)\<close> for \<open>k \<ge> 0\<close>: every value moves \<open>k\<close> rows down, the first \<open>k\<close> rows
  become missing, the length stays.\<close>

definition shift :: "nat \<Rightarrow> series \<Rightarrow> series" where
  "shift k s = take (length s) (replicate k None @ s)"

text \<open>\<open>s.rolling(window=w).mean()\<close>: at row \<open>i\<close> the mean of the \<open>w\<close> values ending at
  row \<open>i\<close>. \<open>min_periods\<close> defaults to \<open>w\<close>, so the result is missing when fewer than \<open>w\<close>
  rows are there or when any value in the window is missing; an empty window has no mean.\<close>

definition window_mean :: "series \<Rightarrow> cell" where
  "window_mean xs =
     (if xs = [] \<or> None \<in> set xs then None
      else Some (sum_list (map the xs) / of_nat (length xs)))"

definition rolling_mean :: "nat \<Rightarrow> series \<Rightarrow> series" where
  "rolling_mean w s =
     map (\<lambda>i. if 0 < w \<and> w \<le> Suc i then window_mean (take w (drop (Suc i - w) s)) else None)
       [0..<length s]"

section \<open>Column assignments\<close>

text \<open>
  Both \<open>create_lag_features\<close> and \<open>enrich_features\<close> have the same shape:
  \<open>df = df.copy()\<close>, a sequence of assignments \<open>df[c] = e\<close> whose right-hand sides read
  the table built so far, and \<open>return df\<close>. An assignment is the column name with its
  right-hand side; a right-hand side fails with a KeyError when it reads a column that
  is absent.
\<close>

type_synonym 'ts assignment = "string \<times> ('ts frame \<Rightarrow> error + series)"

fun run_assigns :: "'ts assignment list \<Rightarrow> 'ts frame \<Rightarrow> error + 'ts frame" where
  "run_assigns [] df = Inr df"
| "run_assigns (a # as) df =
     (case snd a df of Inl e \<Rightarrow> Inl e | Inr s \<Rightarrow> run_assigns as (set_col df (fst a) s))"

subsection \<open>The same on an object store\<close>

text \<open>
  To speak about mutation, tables live in a store and a variable holds an address.
  \<open>df.copy()\<close> allocates a fresh table; every assignment then updates the table at that
  address in place.
\<close>

type_synonym 'ts store = "'ts frame list"

definition copy_frame :: "'ts store \<Rightarrow> nat \<Rightarrow> 'ts store \<times> nat" where
  "copy_frame h r = (h @ [h ! r], length h)"

fun run_assigns_at :: "'ts assignment list \<Rightarrow> nat \<Rightarrow> 'ts store \<Rightarrow> 'ts store \<times> (error + nat)" where
  "run_assigns_at [] d h = (h, Inr d)"
| "run_assigns_at (a # as) d h =
     (case snd a (h ! d) of Inl e \<Rightarrow> (h, Inl e)
      | Inr s \<Rightarrow> run_assigns_at as d (h[d := set_col (h ! d) (fst a) s]))"

section \<open>Lag and rolling features\<close>

text \<open>Python's \<open>f"{n}"\<close> for a non-negative integer: its decimal digits.\<close>

definition digit_char :: "nat \<Rightarrow> char" where
  "digit_char d = ''0123456789'' ! d"

fun show_nat :: "nat \<Rightarrow> string" where
  "show_nat n = (if n < 10 then [digit_char n] else show_nat (n div 10) @ [digit_char (n mod 10)])"

declare show_nat.simps [simp del]

definition target :: string where
  "target = ''use_house_overall''"

definition lag_name :: "nat \<Rightarrow> string" where
  "lag_name lag = ''lag_'' @ show_nat lag"

definition roll_name :: "nat \<Rightarrow> string" where
  "roll_name win = ''roll_mean_'' @ show_nat win"

text \<open>\<open>df[f"lag_{lag}"] = df["use_house_overall"].shift(lag)\<close>\<close>

definition lag_assign :: "nat \<Rightarrow> 'ts assignment" where
  "lag_assign lag = (lag_name lag, \<lambda>df. map_sum id (shift lag) (get_col df target))"

text \<open>\<open>df[f"roll_mean_{win}"] = df["use_house_overall"].shift(1).rolling(window=win).mean()\<close>\<close>

definition roll_assign :: "nat \<Rightarrow> 'ts assignment" where
  "roll_assign win =
     (roll_name win, \<lambda>df. map_sum id (\<lambda>s. rolling_mean win (shift 1 s)) (get_col df target))"

text \<open>The two loops of \<open>create_lag_features\<close>, one assignment per lag and then one per
  window. Lags and windows are the non-negative offsets the notebook passes.\<close>

definition lag_assigns :: "nat list \<Rightarrow> nat list \<Rightarrow> 'ts assignment list" where
  "lag_assigns lags roll_windows = map lag_assign lags @ map roll_assign roll_windows"

definition create_lag_features :: "'ts frame \<Rightarrow> nat list \<Rightarrow> nat list \<Rightarrow> error + 'ts frame" where
  "create_lag_features df lags roll_windows = run_assigns (lag_assigns lags roll_windows) df"

definition create_lag_features_at ::
    "'ts store \<Rightarrow> nat \<Rightarrow> nat list \<Rightarrow> nat list \<Rightarrow> 'ts store \<times> (error + nat)" where
  "create_lag_features_at h r lags roll_windows =
     (case copy_frame h r of (h', d) \<Rightarrow> run_assigns_at (lag_assigns lags roll_windows) d h')"

section \<open>Chronological split\<close>

text \<open>
  \<open>split_index = int(len(df) * 0.9)\<close>, then \<open>df.iloc[:split_index]\<close> and
  \<open>df.iloc[split_index:]\<close>. The notebook has no ratio parameter, only the literal 0.9.
  Here the product is taken exactly and \<open>int\<close> truncates it toward zero; the double
  product of the code is modelled below, and for the literal 0.9 it truncates to the same
  integer on every table of fewer than \<open>2 ^ 48\<close> rows. A slice bound below zero counts
  from the end and one beyond the table stops at the end, as Python slices do.
\<close>

definition int_trunc :: "rat \<Rightarrow> int" where
  "int_trunc x = (if 0 \<le> x then \<lfloor>x\<rfloor> else \<lceil>x\<rceil>)"

definition split_index :: "nat \<Rightarrow> int" where
  "split_index n = int_trunc (of_nat n * (9 / 10))"

definition slice_pos :: "int \<Rightarrow> nat \<Rightarrow> nat" where
  "slice_pos k n = (if k < 0 then nat (int n + k) else min (nat k) n)"

definition split :: "'ts frame \<Rightarrow> 'ts frame \<times> 'ts frame" where
  "split df =
     (let k = slice_pos (split_index (nrows df)) (nrows df)
      in (head_rows k df, drop_rows k df))"

subsection \<open>The product in double precision, with the ratio as a parameter\<close>

text \<open>
  A positive double is \<open>m / 2 ^ e\<close> with a 53-bit significand \<open>2 ^ 52 \<le> m < 2 ^ 53\<close>; it is
  kept as the pair \<open>(m, e)\<close>. The row count \<open>n\<close> (below \<open>2 ^ 53\<close>) is a double as it stands.
  The double product \<open>n * r\<close> is the exact product rounded to 53 significant bits, ties to
  the even significand; with the denominator \<open>2 ^ e\<close> kept, this is a rounding of the
  numerator \<open>n * m\<close>. \<open>int\<close> then drops the fraction.
\<close>

fun bit_length :: "nat \<Rightarrow> nat" where
  "bit_length n = (if n = 0 then 0 else Suc (bit_length (n div 2)))"

declare bit_length.simps [simp del]

definition round_shift :: "nat \<Rightarrow> nat \<Rightarrow> nat" where
  "round_shift k s =
     (let q = k div 2 ^ s; r = k mod 2 ^ s
      in if s = 0 then k
         else if r < 2 ^ (s - 1) \<or> (r = 2 ^ (s - 1) \<and> even q) then q else q + 1)"

definition round_to_53 :: "nat \<Rightarrow> nat" where
  "round_to_53 k = (let s = bit_length k - 53 in round_shift k s * 2 ^ s)"

definition double_value :: "nat \<times> nat \<Rightarrow> rat" where
  "double_value r = of_nat (fst r) / 2 ^ snd r"

text \<open>\<open>(m, e)\<close> is the double a decimal literal \<open>x\<close> denotes: normalised, and within half a
  unit of the last place of \<open>x\<close>.\<close>

definition double_of_literal :: "rat \<Rightarrow> nat \<times> nat \<Rightarrow> bool" where
  "double_of_literal x r \<longleftrightarrow>
     2 ^ 52 \<le> fst r \<and> fst r < 2 ^ 53 \<and> \<bar>x * 2 ^ snd r - of_nat (fst r)\<bar> < 1 / 2"

text \<open>\<open>int(n * r)\<close> for a double \<open>r\<close>: with the double of the literal 0.9 this is the
  notebook's \<open>int(len(df) * 0.9)\<close>. The notebook has no other ratio; \<open>split_with\<close> is its
  two slices with the literal replaced by another double, which is what a statement about
  any ratio speaks of.\<close>

definition double_times_trunc :: "nat \<Rightarrow> nat \<times> nat \<Rightarrow> nat" where
  "double_times_trunc n r = round_to_53 (n * fst r) div 2 ^ snd r"

definition split_with :: "nat \<times> nat \<Rightarrow> 'ts frame \<Rightarrow> 'ts frame \<times> 'ts frame" where
  "split_with r df =
     (let k = slice_pos (int (double_times_trunc (nrows df) r)) (nrows df)
      in (head_rows k df, drop_rows k df))"

text \<open>The doubles of the literals 0.9, 0.29 and 0.7.\<close>

definition double_0_9 :: "nat \<times> nat" where
  "double_0_9 = (8106479329266893, 53)"

definition double_0_29 :: "nat \<times> nat" where
  "double_0_29 = (5224175567749775, 54)"

definition double_0_7 :: "nat \<times> nat" where
  "double_0_7 = (6305039478318694, 53)"

section \<open>Lag features of the two segments\<close>

text \<open>
  \<^verbatim>\<open>train_df = create_lag_features(train_df, lags=[1, 2, 3, 6, 12, 24, 48], roll_windows=[3, 6, 12, 24])\<close>
  \<^verbatim>\<open>forecast_df = create_lag_features(pd.concat([train_df.tail(12), forecast_df]), lags=[1, 2, 3], roll_windows=[3, 6, 12])\<close>
  \<^verbatim>\<open>forecast_df = forecast_df.loc[forecast_df.index.difference(train_df.index)]\<close>

  The second line reads the \<open>train_df\<close> the first line has just rebound, so the rows taken
  by \<open>tail(12)\<close> already carry the training segment's lag and rolling columns.
\<close>

definition train_lags :: "nat list" where
  "train_lags = [1, 2, 3, 6, 12, 24, 48]"

definition train_windows :: "nat list" where
  "train_windows = [3, 6, 12, 24]"

definition forecast_lags :: "nat list" where
  "forecast_lags = [1, 2, 3]"

definition forecast_windows :: "nat list" where
  "forecast_windows = [3, 6, 12]"

definition forecast_input :: "'ts frame \<Rightarrow> 'ts frame \<Rightarrow> 'ts frame" where
  "forecast_input train_df forecast_df = concat_frames (tail_rows 12 train_df) forecast_df"

definition keep_new_rows :: "('ts::linorder) frame \<Rightarrow> 'ts frame \<Rightarrow> 'ts frame" where
  "keep_new_rows train_df forecast_df =
     loc_labels (index_difference (index forecast_df) (index train_df)) forecast_df"

definition lag_stage :: "('ts::linorder) frame \<Rightarrow> 'ts frame \<Rightarrow> error + 'ts frame \<times> 'ts frame" where
  "lag_stage train_df forecast_df =
     (case create_lag_features train_df train_lags train_windows of
        Inl e \<Rightarrow> Inl e
      | Inr train_df' \<Rightarrow>
          (case create_lag_features (forecast_input train_df' forecast_df)
                  forecast_lags forecast_windows of
             Inl e \<Rightarrow> Inl e
           | Inr forecast_df' \<Rightarrow> Inr (train_df', keep_new_rows train_df' forecast_df')))"

text \<open>Sorting, splitting and the lag stage in sequence, from the table as loaded.\<close>

definition split_and_lag :: "('ts::linorder) frame \<Rightarrow> error + 'ts frame \<times> 'ts frame" where
  "split_and_lag df =
     (case split (sort_index df) of (train_df, forecast_df) \<Rightarrow> lag_stage train_df forecast_df)"

text \<open>The input of the forecast call as the specification words it: the last \<open>max(lags)\<close>
  training rows before the forecast segment.\<close>

definition spec_forecast_input :: "nat list \<Rightarrow> 'ts frame \<Rightarrow> 'ts frame \<Rightarrow> 'ts frame" where
  "spec_forecast_input lags train_df forecast_df =
     concat_frames (tail_rows (fold max lags 0) train_df) forecast_df"

section \<open>Enrichment\<close>

definition appliance_cols :: "string list" where
  "appliance_cols = [''winecellar'', ''barn'', ''fridge'', ''well'', ''dishwasher'', ''microwave'']"

definition weekend_cols :: "string list" where
  "weekend_cols = [''wd_Saturday'', ''wd_Sunday'']"

text \<open>\<open>df[cs].sum(axis=1)\<close>: the sum of each row over the chosen columns, missing cells
  skipped (so a row of missing cells sums to 0).\<close>

definition nan_to_zero :: "cell \<Rightarrow> real" where
  "nan_to_zero c = (case c of None \<Rightarrow> 0 | Some x \<Rightarrow> x)"

definition row_sum :: "nat \<Rightarrow> series list \<Rightarrow> series" where
  "row_sum n cols = map (\<lambda>i. Some (sum_list (map (\<lambda>s. nan_to_zero (s ! i)) cols))) [0..<n]"

text \<open>\<open>(s > 0).astype(int)\<close>: a comparison with a missing cell is false.\<close>

definition positive_flag :: "cell \<Rightarrow> cell" where
  "positive_flag c = (case c of None \<Rightarrow> Some 0 | Some x \<Rightarrow> Some (if 0 < x then 1 else 0))"

text \<open>Subtraction of two cells: missing when either is.\<close>

definition cell_sub :: "cell \<Rightarrow> cell \<Rightarrow> cell" where
  "cell_sub a b = (case a of None \<Rightarrow> None | Some x \<Rightarrow> (case b of None \<Rightarrow> None | Some y \<Rightarrow> Some (x - y)))"

text \<open>\<open>s // 4\<close>, \<open>s.clip(upper=1)\<close> and \<open>s.isin([0, 1, 2, 3, 4, 5, 6, 22, 23]).astype(int)\<close>.\<close>

definition floordiv4 :: "cell \<Rightarrow> cell" where
  "floordiv4 c = map_option (\<lambda>x. of_int \<lfloor>x / 4\<rfloor>) c"

definition clip_upper :: "real \<Rightarrow> cell \<Rightarrow> cell" where
  "clip_upper u c = map_option (\<lambda>x. min x u) c"

definition night_flag :: "cell \<Rightarrow> cell" where
  "night_flag c =
     (case c of None \<Rightarrow> Some 0
      | Some x \<Rightarrow> Some (if x \<in> set [0, 1, 2, 3, 4, 5, 6, 22, 23] then 1 else 0))"

definition dayofyear_sin :: "cell \<Rightarrow> cell" where
  "dayofyear_sin c = map_option (\<lambda>d. sin (2 * pi * d / 365)) c"

definition dayofyear_cos :: "cell \<Rightarrow> cell" where
  "dayofyear_cos c = map_option (\<lambda>d. cos (2 * pi * d / 365)) c"

text \<open>The nine assignments of \<open>enrich_features\<close>, in the order of the source.\<close>

definition enrich_assigns :: "('ts \<Rightarrow> nat) \<Rightarrow> 'ts assignment list" where
  "enrich_assigns doy =
     [(''appliance_sum'', \<lambda>df. map_sum id (row_sum (nrows df)) (get_cols df appliance_cols)),
      (''furnace_on'', \<lambda>df. map_sum id (map positive_flag) (get_col df ''furnace'')),
      (''net_energy_lag_1'', \<lambda>df.
          (case get_col df ''lag_1'' of Inl e \<Rightarrow> Inl e
           | Inr l \<Rightarrow> (case get_col df ''generated_solar'' of Inl e \<Rightarrow> Inl e
               | Inr g \<Rightarrow> Inr (map2 cell_sub l (shift 1 g))))),
      (''hour_block'', \<lambda>df. map_sum id (map floordiv4) (get_col df ''hour'')),
      (''is_weekend'', \<lambda>df. map_sum id (\<lambda>cols. map (clip_upper 1) (row_sum (nrows df) cols))
          (get_cols df weekend_cols)),
      (''is_night'', \<lambda>df. map_sum id (map night_flag) (get_col df ''hour'')),
      (''dayofyear'', \<lambda>df. Inr (map (\<lambda>t. Some (of_nat (doy t))) (index df))),
      (''dayofyear_sin'', \<lambda>df. map_sum id (map dayofyear_sin) (get_col df ''dayofyear'')),
      (''dayofyear_cos'', \<lambda>df. map_sum id (map dayofyear_cos) (get_col df ''dayofyear''))]"

definition enrich_features :: "('ts \<Rightarrow> nat) \<Rightarrow> 'ts frame \<Rightarrow> error + 'ts frame" where
  "enrich_features doy df = run_assigns (enrich_assigns doy) df"

definition enrich_features_at ::
    "('ts \<Rightarrow> nat) \<Rightarrow> 'ts store \<Rightarrow> nat \<Rightarrow> 'ts store \<times> (error + nat)" where
  "enrich_features_at doy h r =
     (case copy_frame h r of (h', d) \<Rightarrow> run_assigns_at (enrich_assigns doy) d h')"

text \<open>The names of the columns \<open>enrich_features\<close> assigns.\<close>

definition enrich_cols :: "string list" where
  "enrich_cols = [''appliance_sum'', ''furnace_on'', ''net_energy_lag_1'', ''hour_block'',
     ''is_weekend'', ''is_night'', ''dayofyear'', ''dayofyear_sin'', ''dayofyear_cos'']"

section \<open>The notebook from the sorted table to the two enriched segments\<close>

definition notebook :: "('ts \<Rightarrow> nat) \<Rightarrow> ('ts::linorder) frame \<Rightarrow> error + 'ts frame \<times> 'ts frame" where
  "notebook doy df =
     (case split_and_lag df of
        Inl e \<Rightarrow> Inl e
      | Inr (train_df, forecast_df) \<Rightarrow>
          (case enrich_features doy train_df of
             Inl e \<Rightarrow> Inl e
           | Inr train_df' \<Rightarrow>
               (case enrich_features doy forecast_df of
                  Inl e \<Rightarrow> Inl e
                | Inr forecast_df' \<Rightarrow> Inr (train_df', forecast_df'))))"

section \<open>Example tables and observations used in the statements\<close>

text \<open>The series a generated column name stands for, as a function of the target
  series: the inverse of the naming of \<open>create_lag_features\<close>.\<close>

definition feature_of :: "string \<Rightarrow> series \<Rightarrow> series" where
  "feature_of c = (if c \<in> range lag_name then shift (inv lag_name c)
     else (\<lambda>s. rolling_mean (inv roll_name c) (shift 1 s)))"

text \<open>A table of four hourly rows that holds only the target signal.\<close>

definition small_table :: "nat frame" where
  "small_table =
     \<lparr>index = [0, 1, 2, 3],
      columns = [(''use_house_overall'', [Some 1, Some 2, Some 4, Some 9])]\<rparr>"

text \<open>A table that holds only the target signal, one row per hour, with the row number
  as the timestamp.\<close>

definition hourly_table :: "series \<Rightarrow> nat frame" where
  "hourly_table s = \<lparr>index = [0..<length s], columns = [(''use_house_overall'', s)]\<rparr>"

text \<open>Four hundred hours of consumption, none missing.\<close>

definition table_400 :: "nat frame" where
  "table_400 = hourly_table (map (\<lambda>i. Some (real i)) [0..<400])"

text \<open>Twenty hours of consumption, and the same with the reading of hour 18 changed.\<close>

definition table_20 :: "nat frame" where
  "table_20 = hourly_table (map (\<lambda>i. Some (real i)) [0..<20])"

definition table_20_changed :: "nat frame" where
  "table_20_changed = hourly_table ((map (\<lambda>i. Some (real i)) [0..<20])[18 := Some 100])"

text \<open>Five hours of consumption: fewer rows than the windows ask for.\<close>

definition table_5 :: "nat frame" where
  "table_5 = hourly_table [Some 1, Some 2, Some 3, Some 4, Some 5]"

text \<open>What the notebook's lag stage leaves in one column of the forecast segment, and the
  sizes of the two segments.\<close>

definition forecast_column :: "('ts::linorder) frame \<Rightarrow> string \<Rightarrow> error + series" where
  "forecast_column df c =
     (case split_and_lag df of Inl e \<Rightarrow> Inl e | Inr p \<Rightarrow> get_col (snd p) c)"

definition segment_sizes :: "('ts::linorder) frame \<Rightarrow> error + nat \<times> nat" where
  "segment_sizes df =
     (case split_and_lag df of Inl e \<Rightarrow> Inl e | Inr p \<Rightarrow> Inr (nrows (fst p), nrows (snd p)))"

text \<open>The table the notebook passes to the forecast call of \<open>create_lag_features\<close>, and
  the table the specification's wording describes.\<close>

definition forecast_call_input :: "('ts::linorder) frame \<Rightarrow> error + 'ts frame" where
  "forecast_call_input df =
     (case split (sort_index df) of
        (train_df, forecast_df) \<Rightarrow>
          (case create_lag_features train_df train_lags train_windows of
             Inl e \<Rightarrow> Inl e
           | Inr train_df' \<Rightarrow> Inr (forecast_input train_df' forecast_df)))"

definition spec_forecast_call_input :: "('ts::linorder) frame \<Rightarrow> error + 'ts frame" where
  "spec_forecast_call_input df =
     (case split (sort_index df) of
        (train_df, forecast_df) \<Rightarrow>
          (case create_lag_features train_df train_lags train_windows of
             Inl e \<Rightarrow> Inl e
           | Inr train_df' \<Rightarrow> Inr (spec_forecast_input forecast_lags train_df' forecast_df)))"

text \<open>Several assignments of known series in a row, and the nine series that
  \<open>enrich_features\<close> assigns, as functions of the index and of the columns it reads.\<close>

definition set_cols :: "'ts frame \<Rightarrow> (string \<times> series) list \<Rightarrow> 'ts frame" where
  "set_cols df cvs = fold (\<lambda>cv d. set_col d (fst cv) (snd cv)) cvs df"

definition dayofyear_col :: "('ts \<Rightarrow> nat) \<Rightarrow> 'ts list \<Rightarrow> series" where
  "dayofyear_col doy idx = map (\<lambda>t. Some (of_nat (doy t))) idx"

definition enrich_values ::
    "('ts \<Rightarrow> nat) \<Rightarrow> 'ts list \<Rightarrow> series list \<Rightarrow> series \<Rightarrow> series \<Rightarrow> series \<Rightarrow> series
      \<Rightarrow> series list \<Rightarrow> (string \<times> series) list" where
  "enrich_values doy idx apps fu l g ho we =
     [(''appliance_sum'', row_sum (length idx) apps),
      (''furnace_on'', map positive_flag fu),
      (''net_energy_lag_1'', map2 cell_sub l (shift 1 g)),
      (''hour_block'', map floordiv4 ho),
      (''is_weekend'', map (clip_upper 1) (row_sum (length idx) we)),
      (''is_night'', map night_flag ho),
      (''dayofyear'', dayofyear_col doy idx),
      (''dayofyear_sin'', map dayofyear_sin (dayofyear_col doy idx)),
      (''dayofyear_cos'', map dayofyear_cos (dayofyear_col doy idx))]"

text \<open>The columns \<open>enrich_features\<close> reads, and those of them the loaded table must bring
  (\<open>lag_1\<close> comes from the lag stage).\<close>

definition enrich_reads :: "string list" where
  "enrich_reads = appliance_cols @ [''furnace'', ''lag_1'', ''generated_solar'', ''hour'']
     @ weekend_cols"

definition input_cols :: "string list" where
  "input_cols = ''use_house_overall'' # appliance_cols
     @ [''furnace'', ''generated_solar'', ''hour''] @ weekend_cols"

text \<open>Twenty hourly rows with every column the notebook reads; the timestamp counts the
  hours from the start of a year, which gives the day of the year.\<close>

definition full_table :: "nat frame" where
  "full_table =
     \<lparr>index = [0..<20],
      columns = (''use_house_overall'', map (\<lambda>i. Some (real i)) [0..<20])
        # map (\<lambda>c. (c, replicate 20 (Some 1)))
            (appliance_cols @ [''furnace'', ''generated_solar'', ''hour''] @ weekend_cols)\<rparr>"

definition day_of_hour :: "nat \<Rightarrow> nat" where
  "day_of_hour t = t div 24 mod 365 + 1"

text \<open>A table that already has a column named \<open>lag_1\<close>, and one column of a table before
  and after \<open>create_lag_features\<close>.\<close>

definition lagged_table :: "nat frame" where
  "lagged_table =
     \<lparr>index = [0, 1],
      columns = [(''use_house_overall'', [Some 1, Some 2]), (''lag_1'', [Some 7, Some 8])]\<rparr>"

definition column_before_after ::
    "'ts frame \<Rightarrow> nat list \<Rightarrow> nat list \<Rightarrow> string \<Rightarrow> (error + series) \<times> (error + series)" where
  "column_before_after df lags wins c =
     (get_col df c,
      case create_lag_features df lags wins of Inl e \<Rightarrow> Inl e | Inr d \<Rightarrow> get_col d c)"

text \<open>Two rows with every column \<open>enrich_features\<close> reads.\<close>

definition two_row_table :: "nat frame" where
  "two_row_table =
     \<lparr>index = [0, 1],
      columns = (''lag_1'', [Some 5, Some 7])
        # map (\<lambda>c. (c, [Some 1, Some 2]))
            (appliance_cols @ [''furnace'', ''generated_solar'', ''hour''] @ weekend_cols)\<rparr>"

text \<open>One column of the enriched table.\<close>

definition enriched_column :: "('ts \<Rightarrow> nat) \<Rightarrow> 'ts frame \<Rightarrow> string \<Rightarrow> error + series" where
  "enriched_column doy df c =
     (case enrich_features doy df of Inl e \<Rightarrow> Inl e | Inr d \<Rightarrow> get_col d c)"

text \<open>Tables of 8400, 100 and 10 hourly rows that hold the target signal.\<close>

definition table_8400 :: "nat frame" where
  "table_8400 = hourly_table (map (\<lambda>i. Some (real i)) [0..<8400])"

definition table_100 :: "nat frame" where
  "table_100 = hourly_table (map (\<lambda>i. Some (real i)) [0..<100])"

definition table_10 :: "nat frame" where
  "table_10 = hourly_table (map (\<lambda>i. Some (real i)) [0..<10])"

text \<open>Five hourly rows out of order, with every column the notebook reads; the \<open>hour\<close>
  column repeats the timestamp and the target is ten times the timestamp.\<close>

definition unsorted_table :: "nat frame" where
  "unsorted_table =
     \<lparr>index = [3, 1, 4, 0, 2],
      columns = (''use_house_overall'', [Some 30, Some 10, Some 40, Some 0, Some 20])
        # (''hour'', [Some 3, Some 1, Some 4, Some 0, Some 2])
        # map (\<lambda>c. (c, replicate 5 (Some 1)))
            (appliance_cols @ [''furnace'', ''generated_solar''] @ weekend_cols)\<rparr>"

section \<open>Basic facts about tables and series\<close>

lemma of_char_digit_char: "d < 10 \<Longrightarrow> (of_char (digit_char d) :: nat) = 48 + d"
proof -
  assume "d < 10"
  then have "d = 0 \<or> d = 1 \<or> d = 2 \<or> d = 3 \<or> d = 4 \<or> d = 5 \<or> d = 6
    \<or> d = 7 \<or> d = 8 \<or> d = 9" by arith
  then show ?thesis
    by (elim disjE) (simp_all add: digit_char_def)
qed

lemma digit_char_inj: "d < 10 \<Longrightarrow> e < 10 \<Longrightarrow> digit_char d = digit_char e \<Longrightarrow> d = e"
proof -
  assume d: "d < 10" and e: "e < 10" and eq: "digit_char d = digit_char e"
  have "(48::nat) + d = of_char (digit_char d)" using d by (simp only: of_char_digit_char)
  also have "\<dots> = of_char (digit_char e)" by (simp only: eq)
  also have "\<dots> = 48 + e" using e by (simp only: of_char_digit_char)
  finally show "d = e" by (simp only: add_left_cancel)
qed

lemma show_nat_nonempty: "show_nat n \<noteq> []"
  by (subst show_nat.simps) simp

lemma show_nat_inj: "show_nat n = show_nat m \<Longrightarrow> n = m"
proof (induction n arbitrary: m rule: less_induct)
  case (less n)
  show ?case
  proof (cases "n < 10")
    case n: True
    show ?thesis
    proof (cases "m < 10")
      case True
      with n less.prems show ?thesis
        by (simp add: show_nat.simps[of n] show_nat.simps[of m] digit_char_inj)
    next
      case False
      with n less.prems show_nat_nonempty[of "m div 10"] show ?thesis
        by (simp add: show_nat.simps[of n] show_nat.simps[of m])
    qed
  next
    case n: False
    show ?thesis
    proof (cases "m < 10")
      case True
      with n less.prems show_nat_nonempty[of "n div 10"] show ?thesis
        by (simp add: show_nat.simps[of n] show_nat.simps[of m])
    next
      case False
      with n less.prems have a: "show_nat (n div 10) = show_nat (m div 10)"
        and b: "digit_char (n mod 10) = digit_char (m mod 10)"
        by (simp_all add: show_nat.simps[of n] show_nat.simps[of m])
      from n have "n div 10 < n" by simp
      from less.IH[OF this a] have "n div 10 = m div 10" .
      moreover from b have "n mod 10 = m mod 10" by (simp add: digit_char_inj)
      ultimately show ?thesis by (metis div_mult_mod_eq)
    qed
  qed
qed

lemma lag_name_inj [simp]: "lag_name k = lag_name k' \<longleftrightarrow> k = k'"
  by (auto simp: lag_name_def dest: show_nat_inj)

lemma roll_name_inj [simp]: "roll_name k = roll_name k' \<longleftrightarrow> k = k'"
  by (auto simp: roll_name_def dest: show_nat_inj)

lemma names_distinct [simp]:
  "lag_name k \<noteq> roll_name w" "roll_name w \<noteq> lag_name k"
  "lag_name k \<noteq> target" "roll_name w \<noteq> target"
  "target \<noteq> lag_name k" "target \<noteq> roll_name w" 
  by (simp_all add: lag_name_def roll_name_def target_def)

lemma map_of_assign_col:
  "map_of (assign_col cs c s) c' = (if c' = c then Some s else map_of cs c')"
  by (induction cs) auto

lemma get_col_set_col:
  "get_col (set_col df c s) c' = (if c' = c then Inr s else get_col df c')"
  by (simp add: get_col_def set_col_def map_of_assign_col)

lemma index_set_col [simp]: "index (set_col df c s) = index df"
  by (simp add: set_col_def)

lemma nrows_set_col [simp]: "nrows (set_col df c s) = nrows df"
  by (simp add: nrows_def)

lemma length_shift [simp]: "length (shift k s) = length s"
  by (simp add: shift_def)

lemma nth_shift: "i < length s \<Longrightarrow> shift k s ! i = (if i < k then None else s ! (i - k))"
  by (simp add: shift_def nth_append)

lemma length_rolling_mean [simp]: "length (rolling_mean w s) = length s"
  by (simp add: rolling_mean_def)

lemma take_drop_shift1:
  assumes "i < length s" "w \<le> i"
  shows "take w (drop (Suc i - w) (shift 1 s)) = take w (drop (i - w) s)"
proof (rule nth_equalityI)
  show "length (take w (drop (Suc i - w) (shift 1 s))) = length (take w (drop (i - w) s))"
    using assms by simp
next
  fix j assume "j < length (take w (drop (Suc i - w) (shift 1 s)))"
  then have j: "j < w" by simp
  with assms have "Suc i - w + j < length s" by simp
  with assms j show "take w (drop (Suc i - w) (shift 1 s)) ! j = take w (drop (i - w) s) ! j"
    by (simp add: nth_shift Suc_diff_le)
qed

lemma window_mean_shift1_full:
  assumes "i < length s" "w = Suc i"
  shows "window_mean (take w (drop (Suc i - w) (shift 1 s))) = None"
proof -
  have "shift 1 s ! 0 = None" using assms nth_shift[of 0 s 1] by fastforce
  moreover have "0 < length (take w (shift 1 s))" using assms by simp
  ultimately have "None \<in> set (take w (shift 1 s))"
    by (metis assms(1) length_shift length_take less_nat_zero_code list.size(3) min_less_iff_conj nth_mem nth_take zero_less_Suc assms(2))
  then show ?thesis using assms by (simp add: window_mean_def)
qed

lemma nth_rolling_shift1:
  assumes "i < length s"
  shows "rolling_mean w (shift 1 s) ! i =
     (if 0 < w \<and> w \<le> i then window_mean (take w (drop (i - w) s)) else None)"
proof (cases "0 < w \<and> w \<le> Suc i")
  case False
  with assms show ?thesis by (auto simp: rolling_mean_def)
next
  case True
  show ?thesis
  proof (cases "w \<le> i")
    case True
    with assms \<open>0 < w \<and> w \<le> Suc i\<close> take_drop_shift1[OF assms True] show ?thesis
      by (simp add: rolling_mean_def)
  next
    case False
    with True have "w = Suc i" by simp
    with assms False window_mean_shift1_full[OF assms this] show ?thesis
      by (simp add: rolling_mean_def)
  qed
qed

lemma take_drop_as_map:
  assumes "i \<le> length s" "w \<le> i"
  shows "take w (drop (i - w) s) = map (\<lambda>j. s ! j) [i - w..<i]"
  using assms by (auto intro!: nth_equalityI)

lemma window_mean_explicit:
  assumes "i \<le> length s" "w \<le> i"
  shows "window_mean (take w (drop (i - w) s)) =
     (if w = 0 \<or> (\<exists>j\<in>{i - w..<i}. s ! j = None) then None
      else Some ((\<Sum>j = i - w..<i. the (s ! j)) / real w))"
proof -
  have m: "take w (drop (i - w) s) = map (\<lambda>j. s ! j) [i - w..<i]"
    using assms by (rule take_drop_as_map)
  have "sum_list (map the (map (\<lambda>j. s ! j) [i - w..<i])) = (\<Sum>j = i - w..<i. the (s ! j))"
    by (simp add: sum_list_distinct_conv_sum_set comp_def)
  moreover have "length (map (\<lambda>j. s ! j) [i - w..<i]) = w" using assms by simp
  moreover have "(None \<in> set (map (\<lambda>j. s ! j) [i - w..<i])) = (\<exists>j\<in>{i - w..<i}. s ! j = None)"
    by force
  moreover have "(map (\<lambda>j. s ! j) [i - w..<i] = []) = (w = 0)" using assms by auto
  ultimately show ?thesis unfolding m window_mean_def by simp
qed

subsection \<open>Running assignments\<close>

lemma run_assigns_append:
  "run_assigns (as @ bs) df =
     (case run_assigns as df of Inl e \<Rightarrow> Inl e | Inr d \<Rightarrow> run_assigns bs d)"
  by (induction as arbitrary: df) (auto split: sum.splits)

lemma run_assigns_index: "run_assigns as df = Inr out \<Longrightarrow> index out = index df"
  by (induction as arbitrary: df) (auto split: sum.splits)

lemma run_assigns_other:
  "run_assigns as df = Inr out \<Longrightarrow> c \<notin> fst ` set as \<Longrightarrow> get_col out c = get_col df c"
  by (induction as arbitrary: df) (auto split: sum.splits simp: get_col_set_col)

text \<open>Assignments whose right-hand sides read one column \<open>t\<close> that none of them assigns.\<close>

lemma run_assigns_readers:
  assumes "get_col df t = Inr s"
    and "\<forall>a\<in>set as. fst a \<noteq> t \<and> snd a = (\<lambda>d. map_sum id (F (fst a)) (get_col d t))"
  shows "\<exists>out. run_assigns as df = Inr out \<and> index out = index df \<and>
     (\<forall>c. get_col out c = (if c \<in> fst ` set as then Inr (F c s) else get_col df c))"
  using assms
proof (induction as arbitrary: df)
  case Nil
  then show ?case by simp
next
  case (Cons a as)
  let ?df = "set_col df (fst a) (F (fst a) s)"
  from Cons.prems have a: "fst a \<noteq> t" "snd a df = Inr (F (fst a) s)"
    by simp_all
  then have "get_col ?df t = Inr s" using Cons.prems(1) by (simp add: get_col_set_col)
  from Cons.IH[OF this] Cons.prems(2)
  obtain out where out: "run_assigns as ?df = Inr out" "index out = index ?df"
    "\<forall>c. get_col out c = (if c \<in> fst ` set as then Inr (F c s) else get_col ?df c)"
    by auto
  have "run_assigns (a # as) df = Inr out" using a out(1) by simp
  moreover have "index out = index df" using out(2) by simp
  moreover have "\<forall>c. get_col out c = (if c \<in> fst ` set (a # as) then Inr (F c s) else get_col df c)"
    using out(3) by (auto simp: get_col_set_col)
  ultimately show ?case by blast
qed

lemma inj_lag_name: "inj lag_name" by (simp add: inj_def)
lemma inj_roll_name: "inj roll_name" by (simp add: inj_def)

lemma feature_of_lag [simp]: "feature_of (lag_name k) = shift k"
  by (simp add: feature_of_def inv_f_f[OF inj_lag_name])

lemma feature_of_roll [simp]: "feature_of (roll_name w) = (\<lambda>s. rolling_mean w (shift 1 s))"
  by (auto simp: feature_of_def inv_f_f[OF inj_roll_name])

lemma create_lag_features_cols:
  fixes df :: "'ts frame"
  assumes "get_col df target = Inr s"
  shows "\<exists>out. create_lag_features df lags wins = Inr out \<and> index out = index df \<and>
     (\<forall>k\<in>set lags. get_col out (lag_name k) = Inr (shift k s)) \<and>
     (\<forall>w\<in>set wins. get_col out (roll_name w) = Inr (rolling_mean w (shift 1 s))) \<and>
     (\<forall>c. c \<notin> lag_name ` set lags \<union> roll_name ` set wins \<longrightarrow> get_col out c = get_col df c)"
proof -
  have "\<forall>a\<in>set (lag_assigns lags wins).
      fst a \<noteq> target \<and> snd a = (\<lambda>d. map_sum id (feature_of (fst a)) (get_col d target))"
    by (auto simp: lag_assigns_def lag_assign_def roll_assign_def)
  from run_assigns_readers[OF assms this]
  obtain out where out: "run_assigns (lag_assigns lags wins) df = Inr out" "index out = index df"
    "\<forall>c. get_col out c = (if c \<in> fst ` set (lag_assigns lags wins :: 'ts assignment list)
        then Inr (feature_of c s) else get_col df c)"
    by blast
  have names: "fst ` set (lag_assigns lags wins :: 'ts assignment list)
      = lag_name ` set lags \<union> roll_name ` set wins"
    by (simp add: lag_assigns_def image_Un image_image lag_assign_def roll_assign_def)
  show ?thesis
    using out names by (auto simp: create_lag_features_def)
qed

section \<open>The lag and rolling columns\<close>

text \<open>
  Claim C5. When the table has the target column, \<open>create_lag_features\<close> returns a table
  in which, for every requested lag \<open>k\<close>, the column \<open>lag_k\<close> holds at row \<open>i\<close> the target
  of row \<open>i - k\<close> and is missing on the first \<open>k\<close> rows, and, for every requested window
  \<open>w\<close>, the column \<open>roll_mean_w\<close> holds at row \<open>i\<close> the mean of the target over the \<open>w\<close>
  rows before row \<open>i\<close> (the current row excluded) and is missing on the first \<open>w\<close> rows.
  A missing target cell inside the window makes the mean missing, and so does an empty
  window.
\<close>

theorem create_lag_features_values:
  fixes df :: "'ts frame"
  assumes "get_col df target = Inr s"
  shows "\<exists>out. create_lag_features df lags wins = Inr out \<and>
    (\<forall>k\<in>set lags. \<exists>col. get_col out (lag_name k) = Inr col \<and> length col = length s \<and>
        (\<forall>i<length s. col ! i = (if i < k then None else s ! (i - k)))) \<and>
    (\<forall>w\<in>set wins. \<exists>col. get_col out (roll_name w) = Inr col \<and> length col = length s \<and>
        (\<forall>i<length s. col ! i =
           (if i < w \<or> w = 0 \<or> (\<exists>j\<in>{i - w..<i}. s ! j = None) then None
            else Some ((\<Sum>j = i - w..<i. the (s ! j)) / real w))))"
proof -
  from create_lag_features_cols[OF assms, of lags wins]
  obtain out where out: "create_lag_features df lags wins = Inr out"
    "\<forall>k\<in>set lags. get_col out (lag_name k) = Inr (shift k s)"
    "\<forall>w\<in>set wins. get_col out (roll_name w) = Inr (rolling_mean w (shift 1 s))"
    by blast
  have "\<forall>i<length s. rolling_mean w (shift 1 s) ! i =
           (if i < w \<or> w = 0 \<or> (\<exists>j\<in>{i - w..<i}. s ! j = None) then None
            else Some ((\<Sum>j = i - w..<i. the (s ! j)) / real w))" for w
  proof (intro allI impI)
    fix i assume i: "i < length s"
    show "rolling_mean w (shift 1 s) ! i =
           (if i < w \<or> w = 0 \<or> (\<exists>j\<in>{i - w..<i}. s ! j = None) then None
            else Some ((\<Sum>j = i - w..<i. the (s ! j)) / real w))"
    proof (cases "w \<le> i")
      case True
      with i window_mean_explicit[of i s w] nth_rolling_shift1[OF i, of w] show ?thesis
        by auto
    next
      case False
      with i nth_rolling_shift1[OF i, of w] show ?thesis by auto
    qed
  qed
  with out show ?thesis by (auto simp: nth_shift)
qed

theorem create_lag_features_values_witness:
  "get_col small_table target = Inr [Some 1, Some 2, Some 4, Some 9] \<and>
   (\<exists>out c1 c2. create_lag_features small_table [1, 2] [2] = Inr out \<and>
      get_col out (lag_name 2) = Inr c1 \<and> c1 ! 1 = None \<and> c1 ! 3 = Some 2 \<and>
      get_col out (roll_name 2) = Inr c2 \<and> c2 ! 1 = None \<and> c2 ! 3 = Some 3)"
proof -
  let ?s = "[Some 1, Some 2, Some 4, Some 9] :: series"
  have t: "get_col small_table target = Inr ?s"
    by (simp add: small_table_def get_col_def target_def)
  from create_lag_features_values[OF t, of "[1, 2]" "[2]"]
  obtain out where out: "create_lag_features small_table [1, 2] [2] = Inr out"
    and L: "\<forall>k\<in>set [1, 2::nat]. \<exists>col. get_col out (lag_name k) = Inr col \<and> length col = length ?s \<and>
        (\<forall>i<length ?s. col ! i = (if i < k then None else ?s ! (i - k)))"
    and R: "\<forall>w\<in>set [2::nat]. \<exists>col. get_col out (roll_name w) = Inr col \<and> length col = length ?s \<and>
        (\<forall>i<length ?s. col ! i =
           (if i < w \<or> w = 0 \<or> (\<exists>j\<in>{i - w..<i}. ?s ! j = None) then None
            else Some ((\<Sum>j = i - w..<i. the (?s ! j)) / real w)))"
    by blast
  from L[rule_format, of 2] obtain c1 where c1: "get_col out (lag_name 2) = Inr c1"
      "\<forall>i<length ?s. c1 ! i = (if i < 2 then None else ?s ! (i - 2))"
    by auto
  from R[rule_format, of 2] obtain c2 where c2: "get_col out (roll_name 2) = Inr c2"
      "\<forall>i<length ?s. c2 ! i =
           (if i < 2 \<or> (2::nat) = 0 \<or> (\<exists>j\<in>{i - 2..<i}. ?s ! j = None) then None
            else Some ((\<Sum>j = i - 2..<i. the (?s ! j)) / real 2))"
    by auto
  from c1(2) have "c1 ! 1 = None" "c1 ! 3 = Some 2" by simp_all
  moreover from c2(2) have "c2 ! 1 = None" by simp
  moreover have "{Suc 0..<3} = {1, 2}" by auto
  with c2(2)[rule_format, of 3] have "c2 ! 3 = Some 3" by simp
  ultimately show ?thesis using t out c1(1) c2(1) by blast
qed

section \<open>Row selections and well-formed tables\<close>

subsection \<open>Columns of row selections\<close>

lemma map_of_map_snd:
  "map_of (map (\<lambda>cs. (fst cs, f (snd cs))) xs) c = map_option f (map_of xs c)"
  by (induction xs) auto

lemma get_col_Inr_iff: "get_col df c = Inr s \<longleftrightarrow> map_of (columns df) c = Some s"
  by (simp add: get_col_def split: option.splits)

lemma get_col_Inl_iff: "(\<exists>e. get_col df c = Inl e) \<longleftrightarrow> c \<notin> fst ` set (columns df)"
  by (force simp: get_col_def map_of_eq_None_iff split: option.splits dest: map_of_SomeD)

lemma get_col_cases:
  obtains s where "get_col df c = Inr s" | "get_col df c = Inl (KeyError c)"
  by (cases "map_of (columns df) c") (auto simp: get_col_def)

lemma get_col_head_rows: "get_col (head_rows k df) c = map_sum id (take k) (get_col df c)"
  by (simp add: get_col_def head_rows_def map_of_map_snd split: option.splits)

lemma get_col_drop_rows: "get_col (drop_rows k df) c = map_sum id (drop k) (get_col df c)"
  by (simp add: get_col_def drop_rows_def map_of_map_snd split: option.splits)

lemma get_col_take_rows:
  "get_col (take_rows ps df) c = map_sum id (\<lambda>s. map (\<lambda>i. s ! i) ps) (get_col df c)"
  by (simp add: get_col_def take_rows_def map_of_map_snd[of "\<lambda>s. map ((!) s) ps"] split: option.splits)

lemma index_head_rows [simp]: "index (head_rows k df) = take k (index df)"
  by (simp add: head_rows_def)

lemma index_drop_rows [simp]: "index (drop_rows k df) = drop k (index df)"
  by (simp add: drop_rows_def)

lemma index_take_rows [simp]: "index (take_rows ps df) = map (\<lambda>i. index df ! i) ps"
  by (simp add: take_rows_def)

lemma index_tail_rows [simp]: "index (tail_rows k df) = drop (length (index df) - k) (index df)"
  by (simp add: tail_rows_def nrows_def)

lemma index_concat_frames [simp]: "index (concat_frames a b) = index a @ index b"
  by (simp add: concat_frames_def)

lemma names_map_snd [simp]: "map (fst \<circ> (\<lambda>cs. (fst cs, g cs))) xs = map fst xs"
  by (induction xs) auto

subsection \<open>Well-formed tables\<close>

lemma wf_frame_col_length:
  "wf_frame df \<Longrightarrow> get_col df c = Inr s \<Longrightarrow> length s = nrows df"
  by (auto simp: wf_frame_def get_col_Inr_iff list_all_iff nrows_def dest!: map_of_SomeD)

lemma wf_head_rows: "wf_frame df \<Longrightarrow> wf_frame (head_rows k df)"
  by (auto simp: wf_frame_def head_rows_def list_all_iff)

lemma wf_drop_rows: "wf_frame df \<Longrightarrow> wf_frame (drop_rows k df)"
  by (auto simp: wf_frame_def drop_rows_def list_all_iff)

lemma wf_tail_rows: "wf_frame df \<Longrightarrow> wf_frame (tail_rows k df)"
  by (simp add: tail_rows_def wf_drop_rows)

lemma wf_take_rows: "wf_frame df \<Longrightarrow> wf_frame (take_rows ps df)"
  by (auto simp: wf_frame_def take_rows_def list_all_iff)

lemma names_assign_col:
  "fst ` set (assign_col cs c s) = insert c (fst ` set cs)"
proof (induction cs)
  case Nil
  show ?case by simp
next
  case (Cons a cs)
  show ?case
  proof (cases "fst a = c")
    case True
    then show ?thesis by (cases a) auto
  next
    case False
    with Cons show ?thesis by (cases a) auto
  qed
qed

lemma distinct_assign_col:
  "distinct (map fst cs) \<Longrightarrow> distinct (map fst (assign_col cs c s))"
proof (induction cs)
  case Nil
  then show ?case by simp
next
  case (Cons a cs)
  show ?case
  proof (cases "fst a = c")
    case True
    with Cons.prems show ?thesis by (cases a) auto
  next
    case False
    with Cons show ?thesis by (cases a) (auto simp: names_assign_col)
  qed
qed

lemma set_assign_col: "set (assign_col cs c s) \<subseteq> insert (c, s) (set cs)"
  by (induction cs) (auto split: if_splits)

lemma wf_set_col: "wf_frame df \<Longrightarrow> length s = nrows df \<Longrightarrow> wf_frame (set_col df c s)"
  using set_assign_col[of "columns df" c s]
  by (auto simp: wf_frame_def set_col_def distinct_assign_col list_all_iff nrows_def)

lemma length_col_or_nan: "wf_frame df \<Longrightarrow> length (col_or_nan df c) = nrows df"
  by (auto simp: col_or_nan_def wf_frame_col_length get_col_Inr_iff split: option.splits)

lemma map_of_keyed:
  "map_of (map (\<lambda>c. (c, g c)) ns) c = (if c \<in> set ns then Some (g c) else None)"
  by (induction ns) auto

lemma wf_concat_frames:
  assumes "wf_frame a" "wf_frame b"
  shows "wf_frame (concat_frames a b)"
proof -
  let ?ns = "map fst (columns a) @ filter (\<lambda>c. c \<notin> set (map fst (columns a))) (map fst (columns b))"
  have d: "distinct ?ns"
    using assms by (auto simp: wf_frame_def)
  have "map fst (columns (concat_frames a b)) = ?ns"
    by (simp add: concat_frames_def comp_def)
  moreover have "list_all (\<lambda>cs. length (snd cs) = length (index (concat_frames a b)))
      (columns (concat_frames a b))"
    using assms by (auto simp: concat_frames_def list_all_iff length_col_or_nan nrows_def)
  ultimately show ?thesis
    using d unfolding wf_frame_def by simp
qed

lemma get_col_concat_frames:
  "get_col (concat_frames a b) c =
     (if c \<in> fst ` set (columns a) \<union> fst ` set (columns b)
      then Inr (col_or_nan a c @ col_or_nan b c) else Inl (KeyError c))"
proof -
  let ?ns = "map fst (columns a) @ filter (\<lambda>c. c \<notin> set (map fst (columns a))) (map fst (columns b))"
  have "columns (concat_frames a b) = map (\<lambda>c. (c, col_or_nan a c @ col_or_nan b c)) ?ns"
    by (simp only: concat_frames_def frame.simps)
  then have "map_of (columns (concat_frames a b)) c =
      (if c \<in> set ?ns then Some (col_or_nan a c @ col_or_nan b c) else None)"
    by (simp only: map_of_keyed)
  moreover have "c \<in> set ?ns \<longleftrightarrow> c \<in> fst ` set (columns a) \<union> fst ` set (columns b)"
    by auto
  ultimately show ?thesis
    by (simp add: get_col_def)
qed

subsection \<open>Sorting and positions\<close>

lemma map_insort_key: "map f (insort_key f x ys) = insort (f x) (map f ys)"
  by (induction ys) auto

lemma map_sort_key: "map f (sort_key f xs) = sort (map f xs)"
  by (induction xs) (auto simp: map_insort_key)

lemma index_sort_index: "index (sort_index df) = sort (index df)"
  by (simp add: sort_index_def nrows_def map_sort_key map_nth)

lemma wf_sort_index: "wf_frame df \<Longrightarrow> wf_frame (sort_index df)"
  by (simp add: sort_index_def wf_take_rows)

lemma nrows_sort_index [simp]: "nrows (sort_index df) = nrows df"
  by (simp add: nrows_def index_sort_index)

lemma map_nth_upt_drop: "map (\<lambda>i. s ! i) [a..<length s] = drop a s"
  by (auto intro!: nth_equalityI)

lemma take_rows_upt:
  assumes "wf_frame df"
  shows "take_rows [a..<nrows df] df = drop_rows a df"
proof -
  have "map (\<lambda>cs. (fst cs, map (\<lambda>i. snd cs ! i) [a..<nrows df])) (columns df)
      = map (\<lambda>cs. (fst cs, drop a (snd cs))) (columns df)"
  proof (rule map_cong[OF refl])
    fix cs assume "cs \<in> set (columns df)"
    with assms have "length (snd cs) = nrows df"
      by (simp add: wf_frame_def list_all_iff nrows_def)
    then show "(fst cs, map (\<lambda>i. snd cs ! i) [a..<nrows df]) = (fst cs, drop a (snd cs))"
      using map_nth_upt_drop[of "snd cs" a] by simp
  qed
  moreover have "map (\<lambda>i. index df ! i) [a..<nrows df] = drop a (index df)"
    using map_nth_upt_drop[of "index df" a] by (simp add: nrows_def)
  ultimately show ?thesis
    by (simp add: take_rows_def drop_rows_def)
qed

lemma drop_rows_0: "drop_rows 0 df = df"
  by (simp add: drop_rows_def)

lemma sort_index_sorted:
  assumes "wf_frame df" "sorted (index df)"
  shows "sort_index df = df"
proof -
  have "sorted (map (\<lambda>i. index df ! i) [0..<nrows df])"
    using assms(2) by (simp add: nrows_def map_nth)
  then have "sort_key (\<lambda>i. index df ! i) [0..<nrows df] = [0..<nrows df]"
    by (rule sort_key_id_if_sorted)
  then show ?thesis
    using take_rows_upt[OF assms(1), of 0] by (simp add: sort_index_def drop_rows_0)
qed

lemma positions_of_label:
  assumes "distinct zs" "j < length zs"
  shows "filter (\<lambda>i. zs ! i = zs ! j) [0..<length zs] = [j]"
proof -
  have "filter (\<lambda>i. zs ! i = zs ! j) [0..<length zs] = filter (\<lambda>i. i = j) [0..<length zs]"
    using assms by (intro filter_cong refl) (simp add: nth_eq_iff_index_eq)
  also have "\<dots> = [j]"
    using assms(2) by (induction zs rule: rev_induct) (auto simp: less_Suc_eq)
  finally show ?thesis .
qed

lemma positions_of_suffix:
  assumes "distinct (xs @ ys)"
  shows "concat (map (\<lambda>l. filter (\<lambda>i. (xs @ ys) ! i = l) [0..<length (xs @ ys)]) ys)
     = [length xs..<length xs + length ys]"
proof -
  let ?zs = "xs @ ys"
  have ys: "ys = map (\<lambda>j. ?zs ! j) [length xs..<length xs + length ys]"
    by (auto intro!: nth_equalityI simp: nth_append)
  have "concat (map (\<lambda>l. filter (\<lambda>i. ?zs ! i = l) [0..<length ?zs])
          (map (\<lambda>j. ?zs ! j) [length xs..<length xs + length ys]))
      = concat (map (\<lambda>j. [j]) [length xs..<length xs + length ys])"
    unfolding map_map comp_def
  proof (rule arg_cong[where f = concat], rule map_cong[OF refl])
    fix j assume "j \<in> set [length xs..<length xs + length ys]"
    then have "j < length ?zs" by simp
    from positions_of_label[OF assms this]
    show "filter (\<lambda>i. ?zs ! i = ?zs ! j) [0..<length ?zs] = [j]" .
  qed
  also have "\<dots> = [length xs..<length xs + length ys]"
    by (induction "[length xs..<length xs + length ys]") auto
  finally show ?thesis using ys by simp
qed

lemma index_difference_suffix:
  assumes "set xs \<subseteq> set tr" "set ys \<inter> set tr = {}" "distinct ys" "sorted ys"
  shows "index_difference (xs @ ys) tr = ys"
proof -
  have "filter (\<lambda>x. x \<notin> set tr) xs = []" using assms(1) by (auto simp: filter_empty_conv)
  moreover have "filter (\<lambda>x. x \<notin> set tr) ys = ys" using assms(2) by (auto simp: filter_id_conv)
  ultimately show ?thesis
    using assms(3,4) by (simp add: index_difference_def sorted_sort_id)
qed

lemma keep_new_rows_drop:
  assumes "wf_frame fcf" "index fcf = xs @ ys" "set xs \<subseteq> set (index train)"
    "set ys \<inter> set (index train) = {}" "distinct (xs @ ys)" "sorted ys"
  shows "keep_new_rows train fcf = drop_rows (length xs) fcf"
proof -
  have d: "index_difference (index fcf) (index train) = ys"
    using assms by (simp add: index_difference_suffix)
  have n: "nrows fcf = length xs + length ys" using assms(2) by (simp add: nrows_def)
  have "keep_new_rows train fcf = take_rows [length xs..<nrows fcf] fcf"
    unfolding keep_new_rows_def loc_labels_def d
    using positions_of_suffix[OF assms(5)] by (simp add: assms(2) nrows_def)
  then show ?thesis by (simp add: take_rows_upt[OF assms(1)])
qed

lemma index_keep_new_rows:
  assumes "index fcf = xs @ ys" "set xs \<subseteq> set (index train)"
    "set ys \<inter> set (index train) = {}" "distinct (xs @ ys)" "sorted ys"
  shows "index (keep_new_rows train fcf) = ys"
proof -
  have d: "index_difference (index fcf) (index train) = ys"
    using assms by (simp add: index_difference_suffix)
  have "index (keep_new_rows train fcf) = map (\<lambda>i. (xs @ ys) ! i) [length xs..<length xs + length ys]"
    unfolding keep_new_rows_def loc_labels_def d
    using positions_of_suffix[OF assms(4)] by (simp add: assms(1) nrows_def)
  also have "\<dots> = ys" by (auto intro!: nth_equalityI simp: nth_append)
  finally show ?thesis .
qed

section \<open>The chronological split\<close>

lemma nrows_head_rows [simp]: "nrows (head_rows k df) = min k (nrows df)"
  by (simp add: nrows_def min.commute)

lemma nrows_drop_rows [simp]: "nrows (drop_rows k df) = nrows df - k"
  by (simp add: nrows_def)

lemma split_point: "slice_pos (split_index n) n = n * 9 div 10"
proof -
  have "(of_nat n :: rat) * (9 / 10) = of_nat (n * 9) / of_nat 10" by simp
  then have f: "\<lfloor>(of_nat n :: rat) * (9 / 10)\<rfloor> = int (n * 9 div 10)"
    by (simp only: floor_divide_of_nat_eq)
  have "(0::rat) \<le> of_nat n * (9 / 10)" by simp
  then have "split_index n = int (n * 9 div 10)"
    unfolding split_index_def int_trunc_def using f by simp
  then show ?thesis by (simp add: slice_pos_def)
qed

lemma split_eq: "split df = (head_rows (nrows df * 9 div 10) df, drop_rows (nrows df * 9 div 10) df)"
  by (simp add: split_def split_point Let_def)

subsection \<open>The product in double precision\<close>

lemma bit_length_upper: "n < 2 ^ bit_length n"
proof (induction n rule: bit_length.induct)
  case (1 n)
  show ?case
  proof (cases "n = 0")
    case True
    then show ?thesis by (simp add: bit_length.simps[of 0])
  next
    case False
    with 1 have "n div 2 < 2 ^ bit_length (n div 2)" by simp
    then have "n < 2 * 2 ^ bit_length (n div 2)" by linarith
    with False show ?thesis by (simp add: bit_length.simps[of n])
  qed
qed

lemma bit_length_lower: "0 < n \<Longrightarrow> 2 ^ (bit_length n - 1) \<le> n"
proof (induction n rule: bit_length.induct)
  case (1 n)
  show ?case
  proof (cases "n div 2 = 0")
    case True
    with 1(2) show ?thesis
      by (simp add: bit_length.simps[of n] bit_length.simps[of 0])
  next
    case False
    with 1 have ih: "2 ^ (bit_length (n div 2) - 1) \<le> n div 2" by simp
    from False have "0 < bit_length (n div 2)" by (simp add: bit_length.simps[of "n div 2"])
    then have "(2::nat) ^ bit_length (n div 2) = 2 * 2 ^ (bit_length (n div 2) - 1)"
      by (cases "bit_length (n div 2)") simp_all
    with ih have "2 ^ bit_length (n div 2) \<le> n" by linarith
    with 1(2) show ?thesis by (simp add: bit_length.simps[of n])
  qed
qed

lemma bit_length_eqI:
  assumes "2 ^ b \<le> n" "n < 2 ^ Suc b"
  shows "bit_length n = Suc b"
proof -
  have n: "0 < n" using assms(1) by (cases n) simp_all
  from bit_length_lower[OF n] assms(2) have "(2::nat) ^ (bit_length n - 1) < 2 ^ Suc b" by linarith
  then have a: "bit_length n - 1 < Suc b" by (rule power_less_imp_less_exp[rotated]) simp
  from bit_length_upper[of n] assms(1) have "(2::nat) ^ b < 2 ^ bit_length n" by linarith
  then have "b < bit_length n" by (rule power_less_imp_less_exp[rotated]) simp
  with a show ?thesis by linarith
qed

lemma round_shift_bounds:
  "(k div 2 ^ s) * 2 ^ s \<le> round_shift k s * 2 ^ s"
  "round_shift k s * 2 ^ s \<le> k + 2 ^ s"
proof -
  have d: "(k div 2 ^ s) * 2 ^ s \<le> k" by simp
  show "(k div 2 ^ s) * 2 ^ s \<le> round_shift k s * 2 ^ s"
    by (auto simp: round_shift_def Let_def)
  show "round_shift k s * 2 ^ s \<le> k + 2 ^ s"
    by (auto simp: round_shift_def Let_def add_mult_distrib intro: trans_le_add1)
qed

lemma nine_tenths_double:
  assumes "n < 2 ^ 48"
  shows "double_times_trunc n double_0_9 = n * 9 div 10"
proof -
  let ?M = "8106479329266893 :: nat"
  let ?P = "9007199254740992 :: nat"
  let ?k = "n * ?M"
  let ?s = "bit_length ?k - 53"
  let ?q = "n * 9 div 10"
  let ?r = "round_shift ?k ?s * 2 ^ ?s"
  have P: "(2::nat) ^ 53 = ?P" by simp
  have n: "n < 281474976710656" using assms by simp
  have q: "10 * ?q \<le> n * 9" "n * 9 < 10 * ?q + 10" by presburger+
  have lo: "?q * ?P \<le> ?k" using q by linarith
  have ks: "?k < 2 ^ 101"
  proof -
    have "?k \<le> 281474976710656 * ?M" using n by simp
    then show ?thesis by simp
  qed
  have s53: "?s \<le> 53"
  proof -
    have "bit_length ?k \<le> 101"
    proof (cases "?k = 0")
      case True
      then show ?thesis by (simp add: bit_length.simps[of 0])
    next
      case False
      then have "(2::nat) ^ (bit_length ?k - 1) < 2 ^ 101"
        using bit_length_lower[of ?k] ks by linarith
      then have "bit_length ?k - 1 < 101" by (rule power_less_imp_less_exp[rotated]) simp
      then show ?thesis by linarith
    qed
    then show ?thesis by linarith
  qed
  have pw: "(2::nat) ^ ?s \<le> 1 + 2 * n"
  proof (cases "?s = 0")
    case True
    then show ?thesis by simp
  next
    case False
    then have b: "bit_length ?k - 1 = ?s + 52" by linarith
    from False have "0 < ?k" by (cases "?k = 0") (simp_all add: bit_length.simps[of 0])
    from bit_length_lower[OF this] have "(2::nat) ^ (?s + 52) \<le> ?k" unfolding b .
    then have "(2::nat) ^ ?s * 4503599627370496 \<le> n * ?M" by (simp add: power_add)
    then show ?thesis by linarith
  qed
  have lin: "\<And>a b. 10 * a \<le> n * 9 \<Longrightarrow> n * 9 < 10 * a + 10 \<Longrightarrow> b \<le> 1 + 2 * n
      \<Longrightarrow> n * ?M + b < ?P + a * ?P"
    using n by linarith
  have up: "?k + 2 ^ ?s < (?q + 1) * ?P" using lin[OF q pw] by simp
  have "(2::nat) ^ (53 - ?s) * 2 ^ ?s = 2 ^ 53"
    using s53 by (simp only: power_add[symmetric]) simp
  then have eqP: "?q * 2 ^ (53 - ?s) * 2 ^ ?s = ?q * ?P"
    by (simp only: mult.assoc P)
  have "?q * 2 ^ (53 - ?s) * 2 ^ ?s \<le> ?k" unfolding eqP by (rule lo)
  then have "?q * 2 ^ (53 - ?s) \<le> ?k div 2 ^ ?s"
    by (simp only: less_eq_div_iff_mult_less_eq[OF zero_less_power[OF pos2]])
  then have "?q * 2 ^ (53 - ?s) * 2 ^ ?s \<le> (?k div 2 ^ ?s) * 2 ^ ?s"
    by (rule mult_le_mono1)
  then have "?q * ?P \<le> (?k div 2 ^ ?s) * 2 ^ ?s" unfolding eqP .
  with round_shift_bounds(1)[of ?k ?s]
  have l: "?P * ?q \<le> ?r" by (simp only: mult.commute[of ?P ?q])
  from up round_shift_bounds(2)[of ?k ?s] have u: "?r < ?P * Suc ?q" by simp
  have "?r div ?P = ?q" using l u by (rule div_nat_eqI)
  then show ?thesis
    by (simp add: double_times_trunc_def double_0_9_def round_to_53_def Let_def)
qed

lemma double_literals:
  "double_of_literal (9 / 10) double_0_9"
  "double_of_literal (29 / 100) double_0_29"
  "double_of_literal (7 / 10) double_0_7"
  by (simp_all add: double_of_literal_def double_0_9_def double_0_29_def double_0_7_def)

lemma double_times_trunc_0_29: "double_times_trunc 100 double_0_29 = 28"
proof -
  have "bit_length 522417556774977500 = Suc 58" by (rule bit_length_eqI) simp_all
  then show ?thesis
    by (simp add: double_times_trunc_def double_0_29_def round_to_53_def round_shift_def Let_def)
qed

lemma double_times_trunc_0_7: "double_times_trunc 10 double_0_7 = 7"
proof -
  have "bit_length 63050394783186940 = Suc 55" by (rule bit_length_eqI) simp_all
  then show ?thesis
    by (simp add: double_times_trunc_def double_0_7_def round_to_53_def round_shift_def Let_def)
qed

lemma split_with_eq:
  "split_with r df =
     (head_rows (min (double_times_trunc (nrows df) r) (nrows df)) df,
      drop_rows (min (double_times_trunc (nrows df) r) (nrows df)) df)"
  by (simp add: split_with_def slice_pos_def Let_def)

lemma nrows_hourly_table [simp]: "nrows (hourly_table s) = length s"
  by (simp add: hourly_table_def nrows_def)

subsection \<open>The two segments\<close>

text \<open>
  Claim C3, amended. With the notebook's ratio, the literal 0.9, and \<open>k = \<lfloor>N * 9 / 10\<rfloor>\<close> for
  a table of \<open>N\<close> rows: the training segment has the first \<open>k\<close> timestamps and, in every
  column, the first \<open>k\<close> cells; the forecast segment has the remaining timestamps and, in
  every column, the remaining cells; both have the column names of the table, in its
  order, and a name the table lacks is a KeyError in both. So every column of the table
  is the training column followed by the forecast column, the training segment has \<open>k\<close>
  rows and the two together \<open>N\<close>; 8400 rows give 7560 and 840. The double product
  \<open>N * 0.9\<close> of the code truncates to the same \<open>k\<close> on every table of fewer than \<open>2 ^ 48\<close>
  rows, which is the exact \<open>split_index\<close> used here. Nothing is stated for another ratio.
\<close>

theorem split_segments:
  fixes df :: "'ts frame"
  shows
    "double_of_literal (9 / 10) double_0_9 \<and>
     (nrows df < 2 ^ 48 \<longrightarrow>
        int (double_times_trunc (nrows df) double_0_9) = split_index (nrows df) \<and>
        int (double_times_trunc (nrows df) double_0_9) = \<lfloor>(of_nat (nrows df) :: rat) * (9 / 10)\<rfloor>) \<and>
     int (nrows df * 9 div 10) = \<lfloor>(of_nat (nrows df) :: rat) * (9 / 10)\<rfloor> \<and>
     index (fst (split df)) = take (nrows df * 9 div 10) (index df) \<and>
     index (snd (split df)) = drop (nrows df * 9 div 10) (index df) \<and>
     map fst (columns (fst (split df))) = map fst (columns df) \<and>
     map fst (columns (snd (split df))) = map fst (columns df) \<and>
     (\<forall>c. get_col (fst (split df)) c = map_sum id (take (nrows df * 9 div 10)) (get_col df c)) \<and>
     (\<forall>c. get_col (snd (split df)) c = map_sum id (drop (nrows df * 9 div 10)) (get_col df c)) \<and>
     (\<forall>c s. get_col df c = Inr s \<longrightarrow>
        (\<exists>a b. get_col (fst (split df)) c = Inr a \<and> get_col (snd (split df)) c = Inr b \<and>
           a @ b = s \<and> (length s = nrows df \<longrightarrow> length a = nrows df * 9 div 10))) \<and>
     index (fst (split df)) @ index (snd (split df)) = index df \<and>
     nrows (fst (split df)) = nrows df * 9 div 10 \<and>
     nrows (fst (split df)) + nrows (snd (split df)) = nrows df \<and>
     (nrows df = 8400 \<longrightarrow> nrows (fst (split df)) = 7560 \<and> nrows (snd (split df)) = 840)"
proof -
  let ?k = "nrows df * 9 div 10"
  have k: "?k \<le> nrows df" by simp
  have fl: "int ?k = \<lfloor>(of_nat (nrows df) :: rat) * (9 / 10)\<rfloor>"
  proof -
    have "(of_nat (nrows df) :: rat) * (9 / 10) = of_nat (nrows df * 9) / of_nat 10" by simp
    then show ?thesis by (simp only: floor_divide_of_nat_eq)
  qed
  have si: "split_index (nrows df) = int ?k"
    unfolding split_index_def int_trunc_def using fl by simp
  have dbl: "nrows df < 2 ^ 48 \<longrightarrow>
      int (double_times_trunc (nrows df) double_0_9) = split_index (nrows df) \<and>
      int (double_times_trunc (nrows df) double_0_9) = \<lfloor>(of_nat (nrows df) :: rat) * (9 / 10)\<rfloor>"
  proof
    assume "nrows df < 2 ^ 48"
    then have d: "double_times_trunc (nrows df) double_0_9 = ?k" by (rule nine_tenths_double)
    show "int (double_times_trunc (nrows df) double_0_9) = split_index (nrows df) \<and>
      int (double_times_trunc (nrows df) double_0_9) = \<lfloor>(of_nat (nrows df) :: rat) * (9 / 10)\<rfloor>"
      unfolding d si using fl by simp
  qed
  have cols: "\<forall>c s. get_col df c = Inr s \<longrightarrow>
        (\<exists>a b. get_col (fst (split df)) c = Inr a \<and> get_col (snd (split df)) c = Inr b \<and>
           a @ b = s \<and> (length s = nrows df \<longrightarrow> length a = ?k))"
    using k by (simp add: split_eq get_col_head_rows get_col_drop_rows)
  have n1: "nrows (fst (split df)) = ?k" using k by (simp add: split_eq)
  have n2: "nrows (fst (split df)) + nrows (snd (split df)) = nrows df"
    using k by (simp add: split_eq)
  have ex: "nrows df = 8400 \<longrightarrow> nrows (fst (split df)) = 7560 \<and> nrows (snd (split df)) = 840"
    by (simp add: split_eq)
  have names: "map fst (columns (fst (split df))) = map fst (columns df)"
      "map fst (columns (snd (split df))) = map fst (columns df)"
    by (simp_all add: split_eq head_rows_def drop_rows_def)
  show ?thesis
    apply (intro conjI)
                 apply (rule double_literals(1))
                apply (rule dbl)
               apply (rule fl)
              apply (simp add: split_eq)
             apply (simp add: split_eq)
            apply (rule names(1))
           apply (rule names(2))
          apply (simp add: split_eq get_col_head_rows)
         apply (simp add: split_eq get_col_drop_rows)
        apply (rule cols)
       apply (simp add: split_eq)
      apply (rule n1)
     apply (rule n2)
    apply (rule ex)
    done
qed

theorem split_segments_witness:
  "nrows table_8400 = 8400 \<and>
   get_col table_8400 ''use_house_overall'' = Inr (map (\<lambda>i. Some (real i)) [0..<8400]) \<and>
   double_times_trunc 8400 double_0_9 = 7560 \<and>
   split_index 8400 = 7560 \<and>
   nrows (fst (split table_8400)) = 7560 \<and>
   nrows (snd (split table_8400)) = 840 \<and>
   index (fst (split table_8400)) = [0..<7560] \<and>
   index (snd (split table_8400)) = [7560..<8400] \<and>
   get_col (fst (split table_8400)) ''use_house_overall'' = Inr (map (\<lambda>i. Some (real i)) [0..<7560]) \<and>
   get_col (snd (split table_8400)) ''use_house_overall'' = Inr (map (\<lambda>i. Some (real i)) [7560..<8400])"
proof -
  note t = split_segments[of table_8400]
  have n: "nrows table_8400 = 8400" by (simp add: table_8400_def)
  have k: "nrows table_8400 * 9 div 10 = 7560" unfolding n by simp
  have i: "index table_8400 = [0..<8400]" by (simp add: table_8400_def hourly_table_def)
  have g: "get_col table_8400 ''use_house_overall'' = Inr (map (\<lambda>i. Some (real i)) [0..<8400])"
    by (simp add: table_8400_def hourly_table_def get_col_def)
  have tk: "take 7560 [0..<8400::nat] = [0..<7560]" by (simp only: take_upt) simp
  have dr: "drop 7560 [0..<8400::nat] = [7560..<8400]" by (simp only: drop_upt) simp
  have "(8400::nat) < 2 ^ 48" by simp
  with t n have "int (double_times_trunc 8400 double_0_9) = split_index 8400"
      "int (double_times_trunc 8400 double_0_9) = \<lfloor>(of_nat 8400 :: rat) * (9 / 10)\<rfloor>"
    by simp_all
  then have "double_times_trunc 8400 double_0_9 = 7560" "split_index 8400 = 7560" by simp_all
  moreover from t k have "index (fst (split table_8400)) = take 7560 (index table_8400)"
      "index (snd (split table_8400)) = drop 7560 (index table_8400)"
    by simp_all
  moreover from t k have
    "get_col (fst (split table_8400)) ''use_house_overall''
       = map_sum id (take 7560) (get_col table_8400 ''use_house_overall'')"
    "get_col (snd (split table_8400)) ''use_house_overall''
       = map_sum id (drop 7560) (get_col table_8400 ''use_house_overall'')"
    by simp_all
  moreover from t n have "nrows (fst (split table_8400)) = 7560" "nrows (snd (split table_8400)) = 840"
    by simp_all
  ultimately show ?thesis
    unfolding g i using n g by (simp only: map_sum.simps id_apply take_map drop_map tk dr)
qed

text \<open>
  The claim as stated, for any ratio. With the literal 0.29 on 100 rows the product in
  double precision is just below 29 and the training segment has 28 rows, where
  \<open>\<lfloor>100 * 0.29\<rfloor> = 29\<close>. Nor is the size the floor of the exact product with the double:
  with the literal 0.7 on 10 rows that product is below 7 and its floor is 6, but the
  double product rounds to 7 and the training segment has 7 rows.
\<close>

theorem split_ratio_floor_counterexample:
  "double_of_literal (29 / 100) double_0_29 \<and>
   nrows table_100 = 100 \<and>
   nrows (fst (split_with double_0_29 table_100)) = 28 \<and>
   nrows (snd (split_with double_0_29 table_100)) = 72 \<and>
   \<lfloor>(of_nat (nrows table_100) :: rat) * (29 / 100)\<rfloor> = 29 \<and>
   double_of_literal (7 / 10) double_0_7 \<and>
   nrows table_10 = 10 \<and>
   nrows (fst (split_with double_0_7 table_10)) = 7 \<and>
   \<lfloor>(of_nat (nrows table_10) :: rat) * double_value double_0_7\<rfloor> = 6"
proof -
  have a: "nrows table_100 = 100" by (simp add: table_100_def)
  have b: "nrows table_10 = 10" by (simp add: table_10_def)
  have f: "\<lfloor>(of_nat 10 :: rat) * double_value double_0_7\<rfloor> = 6"
    by (simp add: double_value_def double_0_7_def floor_eq_iff)
  show ?thesis
    unfolding a b split_with_eq using f
    by (simp add: double_literals double_times_trunc_0_29 double_times_trunc_0_7 a b)
qed

section \<open>The lag stage\<close>

subsection \<open>Assignments keep tables well formed\<close>

lemma run_assigns_wf:
  assumes "\<forall>a\<in>set as. \<forall>d s. wf_frame d \<longrightarrow> snd a d = Inr s \<longrightarrow> length s = nrows d"
    and "wf_frame df" and "run_assigns as df = Inr out"
  shows "wf_frame out"
  using assms
proof (induction as arbitrary: df)
  case Nil
  then show ?case by simp
next
  case (Cons a as)
  from Cons.prems(3) obtain s where s: "snd a df = Inr s"
    and r: "run_assigns as (set_col df (fst a) s) = Inr out"
    by (auto split: sum.splits)
  from Cons.prems(1,2) s have "length s = nrows df" by simp
  with Cons.prems(2) have "wf_frame (set_col df (fst a) s)" by (simp add: wf_set_col)
  with Cons.IH[OF _ this r] Cons.prems(1) show ?case by simp
qed

lemma lag_assigns_lengths:
  "\<forall>a\<in>set (lag_assigns lags wins :: 'ts assignment list).
     \<forall>d s. wf_frame d \<longrightarrow> snd a d = Inr s \<longrightarrow> length s = nrows d"
proof (intro ballI allI impI)
  fix a :: "'ts assignment" and d :: "'ts frame" and s
  assume a: "a \<in> set (lag_assigns lags wins)" and wf: "wf_frame d" and s: "snd a d = Inr s"
  from a obtain f where f: "snd a = (\<lambda>d. map_sum id f (get_col d target))"
    "\<And>t. length (f t) = length t"
    by (auto simp: lag_assigns_def lag_assign_def roll_assign_def)
  from s f(1) obtain t where t: "get_col d target = Inr t" "s = f t"
    by (cases "get_col d target") auto
  with wf f(2) show "length s = nrows d" by (simp add: wf_frame_col_length)
qed

lemma wf_create_lag_features:
  "wf_frame df \<Longrightarrow> create_lag_features df lags wins = Inr out \<Longrightarrow> wf_frame out"
  unfolding create_lag_features_def
  using run_assigns_wf[OF lag_assigns_lengths] by blast

lemma create_lag_features_needs_target:
  assumes "create_lag_features df (k # lags) wins = Inr out"
  shows "\<exists>s. get_col df target = Inr s"
  using assms
  by (cases "get_col df target")
    (simp_all add: create_lag_features_def lag_assigns_def lag_assign_def)

lemma col_or_nan_get_col:
  "col_or_nan df c = (case get_col df c of Inl e \<Rightarrow> replicate (nrows df) None | Inr s \<Rightarrow> s)"
  by (simp add: col_or_nan_def get_col_def split: option.splits)

lemma names_drop_rows [simp]: "fst ` set (columns (drop_rows k df)) = fst ` set (columns df)"
  by (force simp: drop_rows_def)

lemma names_head_rows [simp]: "fst ` set (columns (head_rows k df)) = fst ` set (columns df)"
  by (force simp: head_rows_def)

lemma names_iff_get_col: "c \<in> fst ` set (columns df) \<longleftrightarrow> (\<exists>s. get_col df c = Inr s)"
  using get_col_Inl_iff[of df c] by (cases "get_col df c") auto

subsection \<open>The lag stage on two segments\<close>

lemma lag_stage_result:
  fixes train fc :: "('ts::linorder) frame"
  assumes wf: "wf_frame train" "wf_frame fc"
    and tg: "get_col train target = Inr a" "get_col fc target = Inr b"
    and idx: "distinct (index train @ index fc)" "sorted (index fc)"
  defines "sp \<equiv> min 12 (nrows train)" and "h \<equiv> drop (nrows train - 12) a @ b"
  shows "\<exists>train' fc'. lag_stage train fc = Inr (train', fc') \<and>
     create_lag_features train train_lags train_windows = Inr train' \<and>
     index train' = index train \<and> index fc' = index fc \<and> wf_frame train' \<and> wf_frame fc' \<and>
     (\<forall>k\<in>set forecast_lags. get_col fc' (lag_name k) = Inr (drop sp (shift k h))) \<and>
     (\<forall>w\<in>set forecast_windows.
        get_col fc' (roll_name w) = Inr (drop sp (rolling_mean w (shift 1 h)))) \<and>
     (\<forall>c. c \<notin> lag_name ` set forecast_lags \<union> roll_name ` set forecast_windows \<longrightarrow>
        get_col fc' c =
          (if c \<in> fst ` set (columns train') \<union> fst ` set (columns fc)
           then Inr (col_or_nan fc c) else Inl (KeyError c)))"
proof -
  from create_lag_features_cols[OF tg(1), of train_lags train_windows]
  obtain train' where tr: "create_lag_features train train_lags train_windows = Inr train'"
    "index train' = index train"
    "\<forall>c. c \<notin> lag_name ` set train_lags \<union> roll_name ` set train_windows \<longrightarrow>
        get_col train' c = get_col train c"
    by blast
  have wtr: "wf_frame train'" using wf(1) tr(1) by (rule wf_create_lag_features)
  have ntr: "nrows train' = nrows train" using tr(2) by (simp add: nrows_def)
  have ttr: "get_col train' target = Inr a"
  proof -
    have "target \<notin> lag_name ` set train_lags \<union> roll_name ` set train_windows"
      by (auto simp: image_iff)
    with tr(3) tg(1) show ?thesis by simp
  qed
  let ?tl = "tail_rows 12 train'"
  let ?cc = "forecast_input train' fc"
  have wtl: "wf_frame ?tl" using wtr by (rule wf_tail_rows)
  have ntl: "nrows ?tl = sp" by (simp add: tail_rows_def ntr sp_def)
  have wcc: "wf_frame ?cc" unfolding forecast_input_def using wtl wf(2) by (rule wf_concat_frames)
  have tcc: "get_col ?cc target = Inr h"
    using ttr tg(2)
    by (simp add: forecast_input_def get_col_concat_frames names_iff_get_col col_or_nan_get_col
        tail_rows_def get_col_drop_rows ntr h_def)
  from create_lag_features_cols[OF tcc, of forecast_lags forecast_windows]
  obtain fcf where fcf: "create_lag_features ?cc forecast_lags forecast_windows = Inr fcf"
    "index fcf = index ?cc"
    "\<forall>k\<in>set forecast_lags. get_col fcf (lag_name k) = Inr (shift k h)"
    "\<forall>w\<in>set forecast_windows. get_col fcf (roll_name w) = Inr (rolling_mean w (shift 1 h))"
    "\<forall>c. c \<notin> lag_name ` set forecast_lags \<union> roll_name ` set forecast_windows \<longrightarrow>
        get_col fcf c = get_col ?cc c"
    by blast
  have wfcf: "wf_frame fcf" using wcc fcf(1) by (rule wf_create_lag_features)
  let ?xs = "drop (length (index train) - 12) (index train)"
  have ix: "index fcf = ?xs @ index fc"
    by (simp add: fcf(2) forecast_input_def tr(2))
  have lxs: "length ?xs = sp" by (simp add: sp_def nrows_def)
  have k1: "set ?xs \<subseteq> set (index train')" by (simp add: tr(2) set_drop_subset)
  have k2: "set (index fc) \<inter> set (index train') = {}" using idx(1) by (auto simp: tr(2))
  have k3: "distinct (?xs @ index fc)"
    using idx(1) by (auto dest: in_set_dropD)
  have keep: "keep_new_rows train' fcf = drop_rows sp fcf"
    using keep_new_rows_drop[OF wfcf ix k1 k2 k3 idx(2)] lxs by simp
  let ?out = "drop_rows sp fcf"
  have ls: "lag_stage train fc = Inr (train', ?out)"
    by (simp add: lag_stage_def tr(1) fcf(1) keep)
  have io: "index ?out = index fc" using lxs by (simp add: ix)
  have wo: "wf_frame ?out" using wfcf by (rule wf_drop_rows)
  have c1: "\<forall>k\<in>set forecast_lags. get_col ?out (lag_name k) = Inr (drop sp (shift k h))"
    using fcf(3) by (simp add: get_col_drop_rows)
  have c2: "\<forall>w\<in>set forecast_windows.
        get_col ?out (roll_name w) = Inr (drop sp (rolling_mean w (shift 1 h)))"
    using fcf(4) by (simp add: get_col_drop_rows)
  have c3: "\<forall>c. c \<notin> lag_name ` set forecast_lags \<union> roll_name ` set forecast_windows \<longrightarrow>
        get_col ?out c =
          (if c \<in> fst ` set (columns train') \<union> fst ` set (columns fc)
           then Inr (col_or_nan fc c) else Inl (KeyError c))"
  proof (intro allI impI)
    fix c assume c: "c \<notin> lag_name ` set forecast_lags \<union> roll_name ` set forecast_windows"
    have "length (col_or_nan ?tl c) = sp" using length_col_or_nan[OF wtl, of c] ntl by simp
    then have "drop sp (col_or_nan ?tl c @ col_or_nan fc c) = col_or_nan fc c" by simp
    moreover have "get_col ?out c = map_sum id (drop sp) (get_col ?cc c)"
      using fcf(5) c by (simp add: get_col_drop_rows)
    ultimately show "get_col ?out c =
          (if c \<in> fst ` set (columns train') \<union> fst ` set (columns fc)
           then Inr (col_or_nan fc c) else Inl (KeyError c))"
      by (simp add: forecast_input_def get_col_concat_frames tail_rows_def)
  qed
  from ls tr(1,2) io wtr wo c1 c2 c3 show ?thesis by blast
qed

lemma drop_shift_map:
  assumes "length h = sp + m"
  shows "drop sp (shift c h) = map (\<lambda>j. if sp + j < c then None else h ! (sp + j - c)) [0..<m]"
  using assms by (auto intro!: nth_equalityI simp: nth_shift)

lemma drop_rolling_map:
  assumes "length h = sp + m"
  shows "drop sp (rolling_mean w (shift 1 h)) =
     map (\<lambda>j. if sp + j < w \<or> w = 0 then None
               else window_mean (take w (drop (sp + j - w) h))) [0..<m]"
proof (rule nth_equalityI)
  show "length (drop sp (rolling_mean w (shift 1 h))) =
      length (map (\<lambda>j. if sp + j < w \<or> w = 0 then None
               else window_mean (take w (drop (sp + j - w) h))) [0..<m])"
    using assms by simp
next
  fix j assume "j < length (drop sp (rolling_mean w (shift 1 h)))"
  then have j: "j < m" using assms by simp
  then have "sp + j < length h" using assms by simp
  from nth_rolling_shift1[OF this, of w] j assms
  show "drop sp (rolling_mean w (shift 1 h)) ! j =
      map (\<lambda>j. if sp + j < w \<or> w = 0 then None
               else window_mean (take w (drop (sp + j - w) h))) [0..<m] ! j"
    by (auto simp: not_less)
qed

lemma names_take_rows [simp]: "fst ` set (columns (take_rows ps df)) = fst ` set (columns df)"
  by (force simp: take_rows_def)

lemma names_sort_index [simp]: "fst ` set (columns (sort_index df)) = fst ` set (columns df)"
  by (simp add: sort_index_def)

lemma split_point_le: "n * 9 div 10 \<le> (n::nat)"
  by simp

lemma split_and_lag_result:
  fixes df :: "('ts::linorder) frame"
  assumes wf: "wf_frame df" and di: "distinct (index df)"
    and tg: "get_col (sort_index df) target = Inr tgt"
  defines "k \<equiv> nrows df * 9 div 10"
  defines "sp \<equiv> min 12 k"
  defines "m \<equiv> nrows df - k"
  shows "\<exists>train fc. split_and_lag df = Inr (train, fc) \<and>
     create_lag_features (head_rows k (sort_index df)) train_lags train_windows = Inr train \<and>
     index train = take k (sort (index df)) \<and> index fc = drop k (sort (index df)) \<and>
     wf_frame train \<and> wf_frame fc \<and>
     (\<forall>c\<in>set forecast_lags. get_col fc (lag_name c) =
        Inr (map (\<lambda>j. if sp + j < c then None else tgt ! (k + j - c)) [0..<m])) \<and>
     (\<forall>w\<in>set forecast_windows. get_col fc (roll_name w) =
        Inr (map (\<lambda>j. if sp + j < w \<or> w = 0 then None
                       else window_mean (take w (drop (k + j - w) tgt))) [0..<m])) \<and>
     (\<forall>c. c \<notin> lag_name ` set forecast_lags \<union> roll_name ` set forecast_windows \<longrightarrow>
        get_col fc c =
          (if c \<in> fst ` set (columns df) then map_sum id (drop k) (get_col (sort_index df) c)
           else if c \<in> fst ` set (columns train) then Inr (replicate m None)
           else Inl (KeyError c)))"
proof -
  let ?sdf = "sort_index df"
  let ?tr = "head_rows k ?sdf" and ?fc = "drop_rows k ?sdf"
  have wsdf: "wf_frame ?sdf" using wf by (rule wf_sort_index)
  have n: "length tgt = nrows df" using wf_frame_col_length[OF wsdf tg] by simp
  have kn: "k \<le> nrows df" by (simp add: k_def)
  have sp: "split ?sdf = (?tr, ?fc)" by (simp add: split_eq k_def)
  have w1: "wf_frame ?tr" using wsdf by (rule wf_head_rows)
  have w2: "wf_frame ?fc" using wsdf by (rule wf_drop_rows)
  have t1: "get_col ?tr target = Inr (take k tgt)" by (simp add: get_col_head_rows tg)
  have t2: "get_col ?fc target = Inr (drop k tgt)" by (simp add: get_col_drop_rows tg)
  have i1: "distinct (index ?tr @ index ?fc)" using di by (simp add: index_sort_index)
  have i2: "sorted (index ?fc)" by (simp add: index_sort_index sorted_wrt_drop)
  have ntr: "nrows ?tr = k" using kn by simp
  from lag_stage_result[OF w1 w2 t1 t2 i1 i2, unfolded ntr]
  obtain train fc where r: "lag_stage ?tr ?fc = Inr (train, fc)"
    "create_lag_features ?tr train_lags train_windows = Inr train"
    "index train = index ?tr" "index fc = index ?fc" "wf_frame train" "wf_frame fc"
    "\<forall>c\<in>set forecast_lags. get_col fc (lag_name c) =
        Inr (drop (min 12 k) (shift c (drop (k - 12) (take k tgt) @ drop k tgt)))"
    "\<forall>w\<in>set forecast_windows. get_col fc (roll_name w) =
        Inr (drop (min 12 k) (rolling_mean w (shift 1 (drop (k - 12) (take k tgt) @ drop k tgt))))"
    "\<forall>c. c \<notin> lag_name ` set forecast_lags \<union> roll_name ` set forecast_windows \<longrightarrow>
        get_col fc c =
          (if c \<in> fst ` set (columns train) \<union> fst ` set (columns ?fc)
           then Inr (col_or_nan ?fc c) else Inl (KeyError c))"
    by blast
  let ?h = "drop (k - 12) tgt"
  have h: "drop (k - 12) (take k tgt) @ drop k tgt = ?h"
  proof -
    have "drop (k - 12) (take k tgt @ drop k tgt) = drop (k - 12) (take k tgt) @ drop k tgt"
      using kn n by (simp only: drop_append) simp
    then show ?thesis by (simp only: append_take_drop_id)
  qed
  have lh: "length ?h = sp + m" using kn n by (auto simp: sp_def m_def)
  have off: "k - 12 + sp = k" by (auto simp: sp_def)
  have a: "split_and_lag df = Inr (train, fc)" by (simp add: split_and_lag_def sp r(1))
  have c1: "\<forall>c\<in>set forecast_lags. get_col fc (lag_name c) =
        Inr (map (\<lambda>j. if sp + j < c then None else tgt ! (k + j - c)) [0..<m])"
  proof
    fix c assume c: "c \<in> set forecast_lags"
    have "map (\<lambda>j. if sp + j < c then None else ?h ! (sp + j - c)) [0..<m]
        = map (\<lambda>j. if sp + j < c then None else tgt ! (k + j - c)) [0..<m]"
    proof (rule map_cong[OF refl])
      fix j assume "j \<in> set [0..<m]"
      then have j: "j < m" by simp
      show "(if sp + j < c then None else ?h ! (sp + j - c))
          = (if sp + j < c then None else tgt ! (k + j - c))"
      proof (cases "sp + j < c")
        case False
        then have "k - 12 + (sp + j - c) = k + j - c" using off by simp
        moreover have "k - 12 + (sp + j - c) \<le> length tgt" using lh j False kn n
          by (simp add: m_def)
        ultimately show ?thesis using False by simp
      qed simp
    qed
    with r(7) c drop_shift_map[OF lh, of c] show "get_col fc (lag_name c) =
        Inr (map (\<lambda>j. if sp + j < c then None else tgt ! (k + j - c)) [0..<m])"
      by (simp add: h sp_def)
  qed
  have c2: "\<forall>w\<in>set forecast_windows. get_col fc (roll_name w) =
        Inr (map (\<lambda>j. if sp + j < w \<or> w = 0 then None
                       else window_mean (take w (drop (k + j - w) tgt))) [0..<m])"
  proof
    fix w assume w: "w \<in> set forecast_windows"
    have "map (\<lambda>j. if sp + j < w \<or> w = 0 then None
               else window_mean (take w (drop (sp + j - w) ?h))) [0..<m]
        = map (\<lambda>j. if sp + j < w \<or> w = 0 then None
                       else window_mean (take w (drop (k + j - w) tgt))) [0..<m]"
    proof (rule map_cong[OF refl])
      fix j assume "j \<in> set [0..<m]"
      show "(if sp + j < w \<or> w = 0 then None
               else window_mean (take w (drop (sp + j - w) ?h)))
          = (if sp + j < w \<or> w = 0 then None
                       else window_mean (take w (drop (k + j - w) tgt)))"
      proof (cases "sp + j < w")
        case False
        then have "sp + j - w + (k - 12) = k + j - w" using off by simp
        then show ?thesis by simp
      qed simp
    qed
    with r(8) w drop_rolling_map[OF lh, of w] show "get_col fc (roll_name w) =
        Inr (map (\<lambda>j. if sp + j < w \<or> w = 0 then None
                       else window_mean (take w (drop (k + j - w) tgt))) [0..<m])"
      by (simp add: h sp_def)
  qed
  have c3: "\<forall>c. c \<notin> lag_name ` set forecast_lags \<union> roll_name ` set forecast_windows \<longrightarrow>
        get_col fc c =
          (if c \<in> fst ` set (columns df) then map_sum id (drop k) (get_col (sort_index df) c)
           else if c \<in> fst ` set (columns train) then Inr (replicate m None)
           else Inl (KeyError c))"
  proof (intro allI impI)
    fix c assume c: "c \<notin> lag_name ` set forecast_lags \<union> roll_name ` set forecast_windows"
    show "get_col fc c =
          (if c \<in> fst ` set (columns df) then map_sum id (drop k) (get_col (sort_index df) c)
           else if c \<in> fst ` set (columns train) then Inr (replicate m None)
           else Inl (KeyError c))"
    proof (cases "c \<in> fst ` set (columns df)")
      case True
      then obtain s where s: "get_col ?sdf c = Inr s"
        using names_iff_get_col[of c ?sdf] by auto
      with True r(9) c show ?thesis
        by (simp add: col_or_nan_get_col get_col_drop_rows)
    next
      case False
      then have "\<exists>e. get_col ?sdf c = Inl e" using get_col_Inl_iff[of ?sdf c] by simp
      then obtain e where "get_col ?sdf c = Inl e" ..
      with False r(9) c show ?thesis
        by (simp add: col_or_nan_get_col get_col_drop_rows m_def)
    qed
  qed
  from a r(2,5,6) c1 c2 c3 r(3,4) show ?thesis
    by (simp add: index_sort_index)
qed

subsection \<open>Tables that hold only the target\<close>

lemma wf_hourly_table: "wf_frame (hourly_table s)"
  by (simp add: wf_frame_def hourly_table_def)

lemma index_hourly_table [simp]: "index (hourly_table s) = [0..<length s]"
  by (simp add: hourly_table_def)

lemma sort_index_hourly_table: "sort_index (hourly_table s) = hourly_table s"
  by (rule sort_index_sorted[OF wf_hourly_table]) simp

lemma get_col_hourly_table:
  "get_col (hourly_table s) c = (if c = target then Inr s else Inl (KeyError c))"
  by (simp add: get_col_def hourly_table_def target_def)

lemma names_hourly_table: "fst ` set (columns (hourly_table s)) = {target}"
  by (simp add: hourly_table_def target_def)

lemma lag_name_literals:
  "lag_name 1 = ''lag_1''" "lag_name 2 = ''lag_2''" "lag_name 3 = ''lag_3''"
  "lag_name 6 = ''lag_6''" "lag_name 12 = ''lag_12''" "lag_name 24 = ''lag_24''"
  "lag_name 48 = ''lag_48''"
  by (simp_all add: lag_name_def show_nat.simps digit_char_def)

lemma roll_name_literals:
  "roll_name 3 = ''roll_mean_3''" "roll_name 6 = ''roll_mean_6''"
  "roll_name 12 = ''roll_mean_12''" "roll_name 24 = ''roll_mean_24''"
  by (simp_all add: roll_name_def show_nat.simps digit_char_def)

lemma names_create_lag_features:
  assumes "get_col df target = Inr s" "create_lag_features df lags wins = Inr out"
  shows "fst ` set (columns out) =
     fst ` set (columns df) \<union> lag_name ` set lags \<union> roll_name ` set wins"
proof -
  from create_lag_features_cols[OF assms(1), of lags wins] assms(2)
  have c: "\<forall>k\<in>set lags. get_col out (lag_name k) = Inr (shift k s)"
    "\<forall>w\<in>set wins. get_col out (roll_name w) = Inr (rolling_mean w (shift 1 s))"
    "\<forall>c. c \<notin> lag_name ` set lags \<union> roll_name ` set wins \<longrightarrow> get_col out c = get_col df c"
    by auto
  show ?thesis
  proof (intro set_eqI iffI)
    fix c assume "c \<in> fst ` set (columns out)"
    then show "c \<in> fst ` set (columns df) \<union> lag_name ` set lags \<union> roll_name ` set wins"
      using c(3)[rule_format, of c] by (auto simp: names_iff_get_col) metis
  next
    fix c assume "c \<in> fst ` set (columns df) \<union> lag_name ` set lags \<union> roll_name ` set wins"
    then show "c \<in> fst ` set (columns out)"
      using c(1,2) c(3)[rule_format, of c] by (auto simp: names_iff_get_col) blast
  qed
qed

text \<open>The lag stage on a table that holds only the target.\<close>

lemma split_and_lag_hourly:
  defines "k \<equiv> \<lambda>s::series. length s * 9 div 10"
  shows "\<exists>train fc. split_and_lag (hourly_table s) = Inr (train, fc) \<and>
     nrows train = k s \<and> nrows fc = length s - k s \<and>
     (\<forall>c\<in>set forecast_lags. get_col fc (lag_name c) =
        Inr (map (\<lambda>j. if min 12 (k s) + j < c then None else s ! (k s + j - c))
               [0..<length s - k s])) \<and>
     (\<forall>w\<in>set forecast_windows. get_col fc (roll_name w) =
        Inr (map (\<lambda>j. if min 12 (k s) + j < w \<or> w = 0 then None
                       else window_mean (take w (drop (k s + j - w) s))) [0..<length s - k s])) \<and>
     (\<forall>c\<in>lag_name ` set [6, 12, 24, 48] \<union> roll_name ` set [24].
        get_col fc c = Inr (replicate (length s - k s) None))"
proof -
  let ?T = "hourly_table s"
  have tg: "get_col (sort_index ?T) target = Inr s"
    by (simp add: sort_index_hourly_table get_col_hourly_table)
  have di: "distinct (index ?T)" by simp
  from split_and_lag_result[OF wf_hourly_table di tg]
  obtain train fc where r: "split_and_lag ?T = Inr (train, fc)"
    "create_lag_features (head_rows (k s) (sort_index ?T)) train_lags train_windows = Inr train"
    "index train = take (k s) (sort (index ?T))" "index fc = drop (k s) (sort (index ?T))"
    "\<forall>c\<in>set forecast_lags. get_col fc (lag_name c) =
        Inr (map (\<lambda>j. if min 12 (k s) + j < c then None else s ! (k s + j - c))
               [0..<length s - k s])"
    "\<forall>w\<in>set forecast_windows. get_col fc (roll_name w) =
        Inr (map (\<lambda>j. if min 12 (k s) + j < w \<or> w = 0 then None
                       else window_mean (take w (drop (k s + j - w) s))) [0..<length s - k s])"
    "\<forall>c. c \<notin> lag_name ` set forecast_lags \<union> roll_name ` set forecast_windows \<longrightarrow>
        get_col fc c =
          (if c \<in> fst ` set (columns ?T) then map_sum id (drop (k s)) (get_col (sort_index ?T) c)
           else if c \<in> fst ` set (columns train) then Inr (replicate (length s - k s) None)
           else Inl (KeyError c))"
    unfolding k_def nrows_hourly_table by blast
  have kl: "k s \<le> length s" by (simp add: k_def)
  have n1: "nrows train = k s" using kl by (simp add: nrows_def r(3))
  have n2: "nrows fc = length s - k s" by (simp add: nrows_def r(4))
  have "get_col (head_rows (k s) (sort_index ?T)) target = Inr (take (k s) s)"
    by (simp add: get_col_head_rows tg)
  from names_create_lag_features[OF this r(2)]
  have nt: "fst ` set (columns train) =
      {target} \<union> lag_name ` set train_lags \<union> roll_name ` set train_windows"
    by (simp add: names_hourly_table)
  have "\<forall>c\<in>lag_name ` set [6, 12, 24, 48] \<union> roll_name ` set [24].
        get_col fc c = Inr (replicate (length s - k s) None)"
  proof
    fix c assume c: "c \<in> lag_name ` set [6, 12, 24, 48] \<union> roll_name ` set [24]"
    then have "c \<notin> lag_name ` set forecast_lags \<union> roll_name ` set forecast_windows"
      by (auto simp: forecast_lags_def forecast_windows_def)
    moreover have "c \<notin> fst ` set (columns ?T)" using c by (auto simp: names_hourly_table)
    moreover have "c \<in> fst ` set (columns train)"
      using c unfolding nt by (auto simp: train_lags_def train_windows_def)
    ultimately show "get_col fc c = Inr (replicate (length s - k s) None)"
      using r(7) by simp
  qed
  with r(1,5,6) n1 n2 show ?thesis by blast
qed

lemma get_col_sort_index:
  "get_col df c = Inr s \<Longrightarrow> \<exists>s'. get_col (sort_index df) c = Inr s'"
  by (simp add: sort_index_def get_col_take_rows)

lemma nonzero_forecast_windows: "w \<in> set forecast_windows \<Longrightarrow> 0 < w"
  by (auto simp: forecast_windows_def)

lemma nonzero_forecast_lags: "k \<in> set forecast_lags \<Longrightarrow> 0 < k"
  by (auto simp: forecast_lags_def)

section \<open>Insufficient history\<close>

text \<open>
  Claim C8. Whenever the target column is there, \<open>create_lag_features\<close> returns a table
  and raises nothing, whatever the number of rows: on every row with fewer than \<open>k\<close>
  (or \<open>w\<close>) rows before it the cell of \<open>lag_k\<close> (or \<open>roll_mean_w\<close>) is missing. In the
  notebook, when the training segment has fewer rows than a window of the forecast call,
  the lag stage still returns both segments and the rolling mean of that window is missing
  on every forecast row that has fewer than \<open>w\<close> rows before it, the first one included.
\<close>

theorem insufficient_history_is_missing:
  fixes df :: "'ts frame" and df' :: "('t::linorder) frame"
  shows "(get_col df target = Inr s \<longrightarrow>
      (\<exists>out. create_lag_features df lags wins = Inr out \<and>
        (\<forall>k\<in>set lags. \<exists>col. get_col out (lag_name k) = Inr col \<and> length col = length s \<and>
            (\<forall>i<length s. i < k \<longrightarrow> col ! i = None)) \<and>
        (\<forall>w\<in>set wins. \<exists>col. get_col out (roll_name w) = Inr col \<and> length col = length s \<and>
            (\<forall>i<length s. i < w \<longrightarrow> col ! i = None)))) \<and>
    (wf_frame df' \<and> distinct (index df') \<and> get_col df' target = Inr s' \<longrightarrow>
      (\<exists>train fc. split_and_lag df' = Inr (train, fc) \<and>
        (\<forall>w\<in>set forecast_windows. nrows train < w \<longrightarrow>
           (\<exists>col. get_col fc (roll_name w) = Inr col \<and> length col = nrows fc \<and>
              (\<forall>j<nrows fc. nrows train + j < w \<longrightarrow> col ! j = None)))))"
proof (intro conjI impI)
  assume t: "get_col df target = Inr s"
  from create_lag_features_cols[OF t, of lags wins]
  obtain out where out: "create_lag_features df lags wins = Inr out"
    "\<forall>k\<in>set lags. get_col out (lag_name k) = Inr (shift k s)"
    "\<forall>w\<in>set wins. get_col out (roll_name w) = Inr (rolling_mean w (shift 1 s))"
    by blast
  have "\<forall>i<length s. i < w \<longrightarrow> rolling_mean w (shift 1 s) ! i = None" for w
    using nth_rolling_shift1[of _ s w] by simp
  with out show "\<exists>out. create_lag_features df lags wins = Inr out \<and>
        (\<forall>k\<in>set lags. \<exists>col. get_col out (lag_name k) = Inr col \<and> length col = length s \<and>
            (\<forall>i<length s. i < k \<longrightarrow> col ! i = None)) \<and>
        (\<forall>w\<in>set wins. \<exists>col. get_col out (roll_name w) = Inr col \<and> length col = length s \<and>
            (\<forall>i<length s. i < w \<longrightarrow> col ! i = None))"
    by (auto simp: nth_shift)
next
  assume a: "wf_frame df' \<and> distinct (index df') \<and> get_col df' target = Inr s'"
  then obtain tgt where tg: "get_col (sort_index df') target = Inr tgt"
    using get_col_sort_index by blast
  let ?k = "nrows df' * 9 div 10"
  from a split_and_lag_result[OF _ _ tg]
  obtain train fc where r: "split_and_lag df' = Inr (train, fc)"
    "index train = take ?k (sort (index df'))" "index fc = drop ?k (sort (index df'))"
    "\<forall>w\<in>set forecast_windows. get_col fc (roll_name w) =
        Inr (map (\<lambda>j. if min 12 ?k + j < w \<or> w = 0 then None
                       else window_mean (take w (drop (?k + j - w) tgt))) [0..<nrows df' - ?k])"
    by blast
  have n1: "nrows train = ?k" by (simp add: nrows_def r(2))
  have n2: "nrows fc = nrows df' - ?k" by (simp add: nrows_def r(3))
  have "\<forall>w\<in>set forecast_windows. nrows train < w \<longrightarrow>
           (\<exists>col. get_col fc (roll_name w) = Inr col \<and> length col = nrows fc \<and>
              (\<forall>j<nrows fc. nrows train + j < w \<longrightarrow> col ! j = None))"
  proof (intro ballI impI)
    fix w assume w: "w \<in> set forecast_windows" and lt: "nrows train < w"
    let ?col = "map (\<lambda>j. if min 12 ?k + j < w \<or> w = 0 then None
                       else window_mean (take w (drop (?k + j - w) tgt))) [0..<nrows df' - ?k]"
    have "get_col fc (roll_name w) = Inr ?col" using r(4) w by simp
    moreover have "length ?col = nrows fc" by (simp add: n2)
    moreover have "\<forall>j<nrows fc. nrows train + j < w \<longrightarrow> ?col ! j = None"
      by (auto simp: n1 n2)
    ultimately show "\<exists>col. get_col fc (roll_name w) = Inr col \<and> length col = nrows fc \<and>
              (\<forall>j<nrows fc. nrows train + j < w \<longrightarrow> col ! j = None)"
      by blast
  qed
  with r(1) show "\<exists>train fc. split_and_lag df' = Inr (train, fc) \<and>
        (\<forall>w\<in>set forecast_windows. nrows train < w \<longrightarrow>
           (\<exists>col. get_col fc (roll_name w) = Inr col \<and> length col = nrows fc \<and>
              (\<forall>j<nrows fc. nrows train + j < w \<longrightarrow> col ! j = None)))"
    by blast
qed

theorem insufficient_history_is_missing_witness:
  "get_col table_5 target = Inr [Some 1, Some 2, Some 3, Some 4, Some 5] \<and>
   wf_frame table_5 \<and> distinct (index table_5) \<and>
   (\<exists>out col. create_lag_features table_5 [6] [12] = Inr out \<and>
      get_col out (lag_name 6) = Inr col \<and> col ! 4 = None) \<and>
   (\<exists>train fc col. split_and_lag table_5 = Inr (train, fc) \<and>
      get_col fc (roll_name 6) = Inr col \<and> col ! 0 = None)"
proof -
  let ?s = "[Some 1, Some 2, Some 3, Some 4, Some 5] :: series"
  have t: "get_col table_5 target = Inr ?s"
    by (simp add: table_5_def get_col_hourly_table)
  have w: "wf_frame table_5" by (simp add: table_5_def wf_hourly_table)
  have d: "distinct (index table_5)" by (simp add: table_5_def)
  note inst = insufficient_history_is_missing[of table_5 ?s "[6]" "[12]" table_5 ?s]
  from inst t obtain out where out: "create_lag_features table_5 [6] [12] = Inr out"
    and L: "\<forall>k\<in>set [6::nat]. \<exists>col. get_col out (lag_name k) = Inr col \<and> length col = length ?s \<and>
            (\<forall>i<length ?s. i < k \<longrightarrow> col ! i = None)"
    by blast
  from L obtain col where col: "get_col out (lag_name 6) = Inr col"
    "\<forall>i<length ?s. i < 6 \<longrightarrow> col ! i = None"
    by auto
  from col(2) have c4: "col ! 4 = None" by simp
  from inst t w d obtain train fc where r: "split_and_lag table_5 = Inr (train, fc)"
    and R: "\<forall>w\<in>set forecast_windows. nrows train < w \<longrightarrow>
           (\<exists>col. get_col fc (roll_name w) = Inr col \<and> length col = nrows fc \<and>
              (\<forall>j<nrows fc. nrows train + j < w \<longrightarrow> col ! j = None))"
    by blast
  from split_and_lag_hourly[of ?s] r have n: "nrows train = 4" "nrows fc = 1"
    by (auto simp: table_5_def)
  from R[rule_format, of 6] n obtain col' where col': "get_col fc (roll_name 6) = Inr col'"
    "\<forall>j<nrows fc. nrows train + j < 6 \<longrightarrow> col' ! j = None"
    by (auto simp: forecast_windows_def)
  from col'(2) n have "col' ! 0 = None" by simp
  with t w d out col(1) c4 r col'(1) show ?thesis by blast
qed

lemma window_mean_window:
  assumes "k + j \<le> length tgt" "w \<le> k + j" "0 < w"
  shows "window_mean (take w (drop (k + j - w) tgt)) =
     (if \<exists>i\<in>{k + j - w..<k + j}. tgt ! i = None then None
      else Some ((\<Sum>i = k + j - w..<k + j. the (tgt ! i)) / real w))"
  using window_mean_explicit[OF assms(1,2)] assms(3) by simp

section \<open>The features of the forecast segment\<close>

text \<open>
  Claim C1, amended. The claim fails for the columns \<open>lag_6\<close>, \<open>lag_12\<close>, \<open>lag_24\<close>,
  \<open>lag_48\<close> and \<open>roll_mean_24\<close>, which the forecast output inherits from the spillover rows
  and which are missing on every forecast row. For the columns the forecast call itself
  generates (\<open>lag_k\<close> for \<open>k\<close> in 1, 2, 3 and \<open>roll_mean_w\<close> for \<open>w\<close> in 3, 6, 12) it holds:
  on forecast row \<open>j\<close>, whose history is the \<open>min 12 |train|\<close> spillover rows and the \<open>j\<close>
  forecast rows before it, \<open>lag_k\<close> is the target \<open>k\<close> rows earlier when the history has
  at least \<open>k\<close> rows and missing otherwise; \<open>roll_mean_w\<close> is the mean of the \<open>w\<close>
  targets before the row when the history has at least \<open>w\<close> rows and none of them is
  missing, and missing otherwise. No value is made up.
\<close>

theorem forecast_features_values:
  fixes df :: "('ts::linorder) frame"
  assumes "wf_frame df" "distinct (index df)" "get_col (sort_index df) target = Inr tgt"
  shows "\<exists>train fc. split_and_lag df = Inr (train, fc) \<and>
    (\<forall>k\<in>set forecast_lags. \<exists>col. get_col fc (lag_name k) = Inr col \<and> length col = nrows fc \<and>
       (\<forall>j<nrows fc. col ! j =
          (if min 12 (nrows train) + j < k then None else tgt ! (nrows train + j - k)))) \<and>
    (\<forall>w\<in>set forecast_windows. \<exists>col. get_col fc (roll_name w) = Inr col \<and>
       length col = nrows fc \<and>
       (\<forall>j<nrows fc. col ! j =
          (if min 12 (nrows train) + j < w
              \<or> (\<exists>i\<in>{nrows train + j - w..<nrows train + j}. tgt ! i = None) then None
           else Some ((\<Sum>i = nrows train + j - w..<nrows train + j. the (tgt ! i)) / real w))))"
proof -
  let ?k = "nrows df * 9 div 10"
  let ?m = "nrows df - ?k"
  from split_and_lag_result[OF assms]
  obtain train fc where r: "split_and_lag df = Inr (train, fc)"
    "index train = take ?k (sort (index df))" "index fc = drop ?k (sort (index df))"
    "\<forall>c\<in>set forecast_lags. get_col fc (lag_name c) =
        Inr (map (\<lambda>j. if min 12 ?k + j < c then None else tgt ! (?k + j - c)) [0..<?m])"
    "\<forall>w\<in>set forecast_windows. get_col fc (roll_name w) =
        Inr (map (\<lambda>j. if min 12 ?k + j < w \<or> w = 0 then None
                       else window_mean (take w (drop (?k + j - w) tgt))) [0..<?m])"
    by blast
  have n1: "nrows train = ?k" by (simp add: nrows_def r(2))
  have n2: "nrows fc = ?m" by (simp add: nrows_def r(3))
  have lt: "length tgt = nrows df"
    using wf_frame_col_length[OF wf_sort_index[OF assms(1)] assms(3)] by simp
  have L: "\<forall>k\<in>set forecast_lags. \<exists>col. get_col fc (lag_name k) = Inr col \<and> length col = nrows fc \<and>
       (\<forall>j<nrows fc. col ! j =
          (if min 12 (nrows train) + j < k then None else tgt ! (nrows train + j - k)))"
    using r(4) by (auto simp: n1 n2)
  have R: "\<forall>w\<in>set forecast_windows. \<exists>col. get_col fc (roll_name w) = Inr col \<and>
       length col = nrows fc \<and>
       (\<forall>j<nrows fc. col ! j =
          (if min 12 (nrows train) + j < w
              \<or> (\<exists>i\<in>{nrows train + j - w..<nrows train + j}. tgt ! i = None) then None
           else Some ((\<Sum>i = nrows train + j - w..<nrows train + j. the (tgt ! i)) / real w)))"
  proof
    fix w assume w: "w \<in> set forecast_windows"
    then have w0: "0 < w" by (rule nonzero_forecast_windows)
    let ?col = "map (\<lambda>j. if min 12 ?k + j < w \<or> w = 0 then None
                       else window_mean (take w (drop (?k + j - w) tgt))) [0..<?m]"
    have "\<forall>j<?m. ?col ! j =
          (if min 12 ?k + j < w \<or> (\<exists>i\<in>{?k + j - w..<?k + j}. tgt ! i = None) then None
           else Some ((\<Sum>i = ?k + j - w..<?k + j. the (tgt ! i)) / real w))"
    proof (intro allI impI)
      fix j assume j: "j < ?m"
      show "?col ! j =
          (if min 12 ?k + j < w \<or> (\<exists>i\<in>{?k + j - w..<?k + j}. tgt ! i = None) then None
           else Some ((\<Sum>i = ?k + j - w..<?k + j. the (tgt ! i)) / real w))"
      proof (cases "min 12 ?k + j < w")
        case True
        with j show ?thesis by simp
      next
        case False
        then have le: "w \<le> ?k + j" by simp
        have "?k + j \<le> length tgt" using j lt by simp
        from window_mean_window[OF this le w0] False j w0 show ?thesis by simp
      qed
    qed
    moreover have "get_col fc (roll_name w) = Inr ?col" using r(5) w by simp
    moreover have "length ?col = ?m" by simp
    ultimately show "\<exists>col. get_col fc (roll_name w) = Inr col \<and>
       length col = nrows fc \<and>
       (\<forall>j<nrows fc. col ! j =
          (if min 12 (nrows train) + j < w
              \<or> (\<exists>i\<in>{nrows train + j - w..<nrows train + j}. tgt ! i = None) then None
           else Some ((\<Sum>i = nrows train + j - w..<nrows train + j. the (tgt ! i)) / real w)))"
      unfolding n1 n2 by blast
  qed
  from r(1) L R show ?thesis by blast
qed

lemma table_20_facts:
  "wf_frame table_20" "distinct (index table_20)"
  "get_col (sort_index table_20) target = Inr (map (\<lambda>i. Some (real i)) [0..<20])"
  by (simp_all add: table_20_def wf_hourly_table sort_index_hourly_table get_col_hourly_table)

theorem forecast_features_values_witness:
  "wf_frame table_20 \<and> distinct (index table_20) \<and>
   get_col (sort_index table_20) target = Inr (map (\<lambda>i. Some (real i)) [0..<20]) \<and>
   (\<exists>train fc c1 c2. split_and_lag table_20 = Inr (train, fc) \<and>
      get_col fc (lag_name 2) = Inr c1 \<and> c1 ! 0 = Some 16 \<and>
      get_col fc (roll_name 3) = Inr c2 \<and> c2 ! 1 = Some 17)"
proof -
  let ?s = "map (\<lambda>i. Some (real i)) [0..<20] :: series"
  from forecast_features_values[OF table_20_facts]
  obtain train fc where r: "split_and_lag table_20 = Inr (train, fc)"
    and L: "\<forall>k\<in>set forecast_lags. \<exists>col. get_col fc (lag_name k) = Inr col \<and> length col = nrows fc \<and>
       (\<forall>j<nrows fc. col ! j =
          (if min 12 (nrows train) + j < k then None else ?s ! (nrows train + j - k)))"
    and R: "\<forall>w\<in>set forecast_windows. \<exists>col. get_col fc (roll_name w) = Inr col \<and>
       length col = nrows fc \<and>
       (\<forall>j<nrows fc. col ! j =
          (if min 12 (nrows train) + j < w
              \<or> (\<exists>i\<in>{nrows train + j - w..<nrows train + j}. ?s ! i = None) then None
           else Some ((\<Sum>i = nrows train + j - w..<nrows train + j. the (?s ! i)) / real w)))"
    by blast
  from split_and_lag_hourly[of ?s] r have n: "nrows train = 18" "nrows fc = 2"
    by (auto simp: table_20_def)
  from L[rule_format, of 2] obtain c1 where c1: "get_col fc (lag_name 2) = Inr c1"
    "\<forall>j<nrows fc. c1 ! j = (if min 12 (nrows train) + j < 2 then None else ?s ! (nrows train + j - 2))"
    by (auto simp: forecast_lags_def)
  from R[rule_format, of 3] obtain c2 where c2: "get_col fc (roll_name 3) = Inr c2"
    "\<forall>j<nrows fc. c2 ! j =
          (if min 12 (nrows train) + j < 3
              \<or> (\<exists>i\<in>{nrows train + j - 3..<nrows train + j}. ?s ! i = None) then None
           else Some ((\<Sum>i = nrows train + j - 3..<nrows train + j. the (?s ! i)) / real 3))"
    by (auto simp: forecast_windows_def)
  from c1(2)[rule_format, of 0] n have v1: "c1 ! 0 = Some 16" by simp
  have set: "{16..<19::nat} = {16, 17, 18}" by auto
  from c2(2)[rule_format, of 1] n have v2: "c2 ! 1 = Some 17" by (simp add: set)
  from table_20_facts r c1(1) v1 c2(1) v2 show ?thesis by blast
qed

text \<open>The claim as stated fails on a table of 400 hourly rows, none missing: 360 rows go
  to the training segment and 40 to the forecast segment, so forecast row 39 has
  \<open>12 + 39 = 51\<close> rows of history, more than any lag or window asks for; yet the columns
  \<open>lag_6\<close>, \<open>lag_12\<close>, \<open>lag_24\<close>, \<open>lag_48\<close> and \<open>roll_mean_24\<close> are in the output and are
  missing on every forecast row.\<close>

theorem inherited_lag_columns_counterexample:
  "get_col table_400 ''use_house_overall'' = Inr (map (\<lambda>i. Some (real i)) [0..<400]) \<and>
   segment_sizes table_400 = Inr (360, 40) \<and>
   forecast_column table_400 ''lag_6'' = Inr (replicate 40 None) \<and>
   forecast_column table_400 ''lag_12'' = Inr (replicate 40 None) \<and>
   forecast_column table_400 ''lag_24'' = Inr (replicate 40 None) \<and>
   forecast_column table_400 ''lag_48'' = Inr (replicate 40 None) \<and>
   forecast_column table_400 ''roll_mean_24'' = Inr (replicate 40 None)"
proof -
  let ?s = "map (\<lambda>i. Some (real i)) [0..<400] :: series"
  from split_and_lag_hourly[of ?s]
  obtain train fc where r: "split_and_lag table_400 = Inr (train, fc)"
    "nrows train = 360" "nrows fc = 40"
    "\<forall>c\<in>lag_name ` set [6, 12, 24, 48] \<union> roll_name ` set [24].
        get_col fc c = Inr (replicate 40 None)"
    by (auto simp: table_400_def)
  from r(4) have "get_col fc ''lag_6'' = Inr (replicate 40 None)"
    "get_col fc ''lag_12'' = Inr (replicate 40 None)"
    "get_col fc ''lag_24'' = Inr (replicate 40 None)"
    "get_col fc ''lag_48'' = Inr (replicate 40 None)"
    "get_col fc ''roll_mean_24'' = Inr (replicate 40 None)"
    by (simp_all add: lag_name_literals roll_name_literals)
  moreover have "get_col table_400 ''use_house_overall'' = Inr ?s"
    by (simp add: table_400_def get_col_hourly_table target_def)
  ultimately show ?thesis using r(1,2,3)
    by (simp add: forecast_column_def segment_sizes_def)
qed

lemma take_drop_agree:
  assumes "take p xs = take p ys" "a + w \<le> p"
  shows "take w (drop a xs) = take w (drop a ys)"
proof -
  have "take w (drop a xs) = drop a (take (a + w) xs)" by (simp add: drop_take)
  also have "take (a + w) xs = take (a + w) (take p xs)" using assms(2) by (simp add: min_absorb1)
  also have "\<dots> = take (a + w) (take p ys)" by (simp only: assms(1))
  also have "\<dots> = take (a + w) ys" using assms(2) by (simp add: min_absorb1)
  also have "drop a (take (a + w) ys) = take w (drop a ys)" by (simp add: drop_take)
  finally show ?thesis .
qed

lemma nth_agree:
  assumes "take p xs = take p ys" "i < p"
  shows "xs ! i = ys ! i"
  using assms by (metis nth_take)

section \<open>What the forecast features depend on\<close>

text \<open>
  Claim C2, amended. The lag and rolling values of a forecast row are computed from the
  target of the rows before it, which are the spillover training rows and the earlier
  forecast rows; they never read the row's own target or a later one. For two tables of
  the same size whose sorted target series agree on the first \<open>p\<close> rows, the columns the
  forecast call generates agree on every forecast row whose position in the sorted table
  is at most \<open>p\<close>. With \<open>p\<close> the size of the training segment this is the first forecast
  row: its values come from training data alone.
\<close>

theorem forecast_features_read_earlier_rows:
  fixes df df' :: "('ts::linorder) frame"
  assumes "wf_frame df" "distinct (index df)" "get_col (sort_index df) target = Inr tgt"
    and "wf_frame df'" "distinct (index df')" "get_col (sort_index df') target = Inr tgt'"
    and "nrows df' = nrows df" and "take p tgt = take p tgt'"
  shows "\<exists>train fc train' fc'.
    split_and_lag df = Inr (train, fc) \<and> split_and_lag df' = Inr (train', fc') \<and>
    nrows train' = nrows train \<and> nrows fc' = nrows fc \<and>
    (\<forall>c\<in>lag_name ` set forecast_lags \<union> roll_name ` set forecast_windows.
       \<exists>col col'. get_col fc c = Inr col \<and> get_col fc' c = Inr col' \<and>
         length col = nrows fc \<and> length col' = nrows fc \<and>
         (\<forall>j<nrows fc. nrows train + j \<le> p \<longrightarrow> col ! j = col' ! j))"
proof -
  let ?k = "nrows df * 9 div 10"
  let ?m = "nrows df - ?k"
  let ?lag = "\<lambda>t c. map (\<lambda>j. if min 12 ?k + j < c then None else t ! (?k + j - c)) [0..<?m]"
  let ?roll = "\<lambda>t w. map (\<lambda>j. if min 12 ?k + j < w \<or> w = 0 then None
                       else window_mean (take w (drop (?k + j - w) t))) [0..<?m]"
  from split_and_lag_result[OF assms(1-3)]
  obtain train fc where r: "split_and_lag df = Inr (train, fc)"
    "index train = take ?k (sort (index df))" "index fc = drop ?k (sort (index df))"
    "\<forall>c\<in>set forecast_lags. get_col fc (lag_name c) = Inr (?lag tgt c)"
    "\<forall>w\<in>set forecast_windows. get_col fc (roll_name w) = Inr (?roll tgt w)"
    by blast
  from split_and_lag_result[OF assms(4-6), unfolded assms(7)]
  obtain train' fc' where r': "split_and_lag df' = Inr (train', fc')"
    "index train' = take ?k (sort (index df'))" "index fc' = drop ?k (sort (index df'))"
    "\<forall>c\<in>set forecast_lags. get_col fc' (lag_name c) = Inr (?lag tgt' c)"
    "\<forall>w\<in>set forecast_windows. get_col fc' (roll_name w) = Inr (?roll tgt' w)"
    by blast
  have n1: "nrows train = ?k" and n2: "nrows fc = ?m"
    by (simp_all add: nrows_def r(2,3))
  have n1': "nrows train' = ?k" and n2': "nrows fc' = ?m"
    using assms(7) by (simp_all add: nrows_def r'(2,3))
  have "\<forall>c\<in>lag_name ` set forecast_lags \<union> roll_name ` set forecast_windows.
       \<exists>col col'. get_col fc c = Inr col \<and> get_col fc' c = Inr col' \<and>
         length col = ?m \<and> length col' = ?m \<and>
         (\<forall>j<?m. ?k + j \<le> p \<longrightarrow> col ! j = col' ! j)"
  proof
    fix c assume "c \<in> lag_name ` set forecast_lags \<union> roll_name ` set forecast_windows"
    then consider k where "k \<in> set forecast_lags" "c = lag_name k"
      | w where "w \<in> set forecast_windows" "c = roll_name w"
      by auto
    then show "\<exists>col col'. get_col fc c = Inr col \<and> get_col fc' c = Inr col' \<and>
         length col = ?m \<and> length col' = ?m \<and>
         (\<forall>j<?m. ?k + j \<le> p \<longrightarrow> col ! j = col' ! j)"
    proof cases
      case 1
      then have k0: "0 < k" by (simp add: nonzero_forecast_lags)
      have "\<forall>j<?m. ?k + j \<le> p \<longrightarrow> ?lag tgt k ! j = ?lag tgt' k ! j"
      proof (intro allI impI)
        fix j assume j: "j < ?m" "?k + j \<le> p"
        show "?lag tgt k ! j = ?lag tgt' k ! j"
        proof (cases "min 12 ?k + j < k")
          case True
          with j show ?thesis by simp
        next
          case False
          then have "?k + j - k < p" using j(2) k0 by auto
          from nth_agree[OF assms(8) this] False j show ?thesis by simp
        qed
      qed
      moreover have "get_col fc c = Inr (?lag tgt k)" "get_col fc' c = Inr (?lag tgt' k)"
        using 1 r(4) r'(4) by simp_all
      moreover have "length (?lag tgt k) = ?m" "length (?lag tgt' k) = ?m" by simp_all
      ultimately show ?thesis by blast
    next
      case 2
      have "\<forall>j<?m. ?k + j \<le> p \<longrightarrow> ?roll tgt w ! j = ?roll tgt' w ! j"
      proof (intro allI impI)
        fix j assume j: "j < ?m" "?k + j \<le> p"
        show "?roll tgt w ! j = ?roll tgt' w ! j"
        proof (cases "min 12 ?k + j < w \<or> w = 0")
          case True
          with j show ?thesis by auto
        next
          case False
          then have "?k + j - w + w \<le> p" using j(2) by auto
          from take_drop_agree[OF assms(8) this] False j show ?thesis by simp
        qed
      qed
      moreover have "get_col fc c = Inr (?roll tgt w)" "get_col fc' c = Inr (?roll tgt' w)"
        using 2 r(5) r'(5) by simp_all
      moreover have "length (?roll tgt w) = ?m" "length (?roll tgt' w) = ?m" by simp_all
      ultimately show ?thesis by blast
    qed
  qed
  with r(1) r'(1) n1 n2 n1' n2' show ?thesis by simp
qed

lemma table_20_changed_facts:
  "wf_frame table_20_changed" "distinct (index table_20_changed)"
  "get_col (sort_index table_20_changed) target
     = Inr ((map (\<lambda>i. Some (real i)) [0..<20])[18 := Some 100])"
  "nrows table_20_changed = nrows table_20"
  by (simp_all add: table_20_changed_def table_20_def wf_hourly_table sort_index_hourly_table
      get_col_hourly_table)

theorem forecast_features_read_earlier_rows_witness:
  "wf_frame table_20 \<and> distinct (index table_20) \<and>
   get_col (sort_index table_20) target = Inr (map (\<lambda>i. Some (real i)) [0..<20]) \<and>
   wf_frame table_20_changed \<and> distinct (index table_20_changed) \<and>
   get_col (sort_index table_20_changed) target
     = Inr ((map (\<lambda>i. Some (real i)) [0..<20])[18 := Some 100]) \<and>
   nrows table_20_changed = nrows table_20 \<and>
   take 18 (map (\<lambda>i. Some (real i)) [0..<20])
     = take 18 ((map (\<lambda>i. Some (real i)) [0..<20])[18 := Some 100]) \<and>
   (\<exists>train fc train' fc' col col'.
      split_and_lag table_20 = Inr (train, fc) \<and>
      split_and_lag table_20_changed = Inr (train', fc') \<and>
      get_col fc (roll_name 3) = Inr col \<and> get_col fc' (roll_name 3) = Inr col' \<and>
      col ! 0 = col' ! 0)"
proof -
  let ?s = "map (\<lambda>i. Some (real i)) [0..<20] :: series"
  have tk: "take 18 ?s = take 18 (?s[18 := Some 100])" by simp
  from forecast_features_read_earlier_rows[OF table_20_facts table_20_changed_facts tk]
  obtain train fc train' fc' where r: "split_and_lag table_20 = Inr (train, fc)"
    "split_and_lag table_20_changed = Inr (train', fc')"
    and C: "\<forall>c\<in>lag_name ` set forecast_lags \<union> roll_name ` set forecast_windows.
       \<exists>col col'. get_col fc c = Inr col \<and> get_col fc' c = Inr col' \<and>
         length col = nrows fc \<and> length col' = nrows fc \<and>
         (\<forall>j<nrows fc. nrows train + j \<le> 18 \<longrightarrow> col ! j = col' ! j)"
    by blast
  from split_and_lag_hourly[of ?s] r(1) have n: "nrows train = 18" "nrows fc = 2"
    by (auto simp: table_20_def)
  have "roll_name 3 \<in> lag_name ` set forecast_lags \<union> roll_name ` set forecast_windows"
    by (simp add: forecast_windows_def)
  from C[rule_format, OF this] obtain col col' where c:
    "get_col fc (roll_name 3) = Inr col" "get_col fc' (roll_name 3) = Inr col'"
    "\<forall>j<nrows fc. nrows train + j \<le> 18 \<longrightarrow> col ! j = col' ! j"
    by blast
  from c(3) n have "col ! 0 = col' ! 0" by simp
  with table_20_facts table_20_changed_facts tk r c(1,2) show ?thesis by blast
qed

text \<open>The claim as stated fails on two tables of 20 hourly rows that agree on the 18
  training rows and on the timestamps and differ in the target of the first forecast row:
  the \<open>lag_1\<close> value of the second forecast row is that target, so it differs.\<close>

theorem forecast_lag_reads_forecast_rows_counterexample:
  "index table_20 = index table_20_changed \<and>
   fst (split (sort_index table_20)) = fst (split (sort_index table_20_changed)) \<and>
   segment_sizes table_20 = Inr (18, 2) \<and>
   forecast_column table_20 ''lag_1'' = Inr [Some 17, Some 18] \<and>
   forecast_column table_20_changed ''lag_1'' = Inr [Some 17, Some 100]"
proof -
  let ?s = "map (\<lambda>i. Some (real i)) [0..<20] :: series"
  let ?s' = "?s[18 := Some 100]"
  have u2: "[0..<2] = [0, Suc 0]" by (simp add: upt_rec)
  from split_and_lag_hourly[of ?s]
  obtain train fc where r: "split_and_lag table_20 = Inr (train, fc)"
    "nrows train = 18" "nrows fc = 2"
    "get_col fc (lag_name 1) = Inr [Some 17, Some 18]"
    by (auto simp: table_20_def forecast_lags_def u2)
  from split_and_lag_hourly[of ?s']
  obtain train' fc' where r': "split_and_lag table_20_changed = Inr (train', fc')"
    "get_col fc' (lag_name 1) = Inr [Some 17, Some 100]"
    by (auto simp: table_20_changed_def forecast_lags_def u2)
  have "fst (split (sort_index table_20)) = fst (split (sort_index table_20_changed))"
    unfolding table_20_def table_20_changed_def sort_index_hourly_table split_eq
      nrows_hourly_table
    by (simp add: head_rows_def hourly_table_def)
  moreover have "index table_20 = index table_20_changed"
    by (simp add: table_20_def table_20_changed_def)
  ultimately show ?thesis using r r' unfolding lag_name_literals
    by (simp add: forecast_column_def segment_sizes_def)
qed

section \<open>The input and the output of the forecast call\<close>

text \<open>
  Claim C6, amended. The forecast call of the generator runs on the concatenation of the
  last 12 rows of the training segment (all of them when there are fewer) with the full
  forecast segment; 12 is the largest window of that call, not its largest lag, which
  is 3. Afterwards every row whose timestamp is in the training segment is discarded:
  what remains are the rows of the generated table after the spillover rows, their
  timestamps are exactly those of the forecast segment, and none is a training timestamp.
\<close>

theorem forecast_call_input_and_output:
  fixes train0 fc0 :: "('ts::linorder) frame"
  assumes "wf_frame train0" "wf_frame fc0"
    and "get_col train0 target = Inr a" "get_col fc0 target = Inr b"
    and "distinct (index train0 @ index fc0)" "sorted (index fc0)"
  shows "\<exists>train fcf fc. lag_stage train0 fc0 = Inr (train, fc) \<and>
     create_lag_features train0 train_lags train_windows = Inr train \<and>
     create_lag_features (concat_frames (tail_rows 12 train) fc0)
        forecast_lags forecast_windows = Inr fcf \<and>
     index (concat_frames (tail_rows 12 train) fc0)
        = drop (nrows train0 - 12) (index train0) @ index fc0 \<and>
     fold max (forecast_lags @ forecast_windows) 0 = 12 \<and>
     fc = keep_new_rows train fcf \<and> fc = drop_rows (min 12 (nrows train0)) fcf \<and>
     index fc = index fc0 \<and> set (index fc) \<inter> set (index train) = {}"
proof -
  from lag_stage_result[OF assms]
  obtain train fc where r: "lag_stage train0 fc0 = Inr (train, fc)"
    "create_lag_features train0 train_lags train_windows = Inr train"
    "index train = index train0" "index fc = index fc0" "wf_frame train"
    by blast
  let ?cc = "concat_frames (tail_rows 12 train) fc0"
  from r(1,2) obtain fcf where f:
    "create_lag_features ?cc forecast_lags forecast_windows = Inr fcf"
    "fc = keep_new_rows train fcf"
    by (auto simp: lag_stage_def forecast_input_def split: sum.splits)
  have wcc: "wf_frame ?cc" using wf_tail_rows[OF r(5)] assms(2) by (rule wf_concat_frames)
  have wf: "wf_frame fcf" using wcc f(1) by (rule wf_create_lag_features)
  let ?xs = "drop (length (index train0) - 12) (index train0)"
  have icc: "index ?cc = ?xs @ index fc0" by (simp add: r(3))
  have ix: "index fcf = ?xs @ index fc0"
    using run_assigns_index[OF f(1)[unfolded create_lag_features_def]] icc by simp
  have k1: "set ?xs \<subseteq> set (index train)" by (simp add: r(3) set_drop_subset)
  have k2: "set (index fc0) \<inter> set (index train) = {}" using assms(5) by (auto simp: r(3))
  have k3: "distinct (?xs @ index fc0)" using assms(5) by (auto dest: in_set_dropD)
  have "keep_new_rows train fcf = drop_rows (length ?xs) fcf"
    by (rule keep_new_rows_drop[OF wf ix k1 k2 k3 assms(6)])
  moreover have "length ?xs = min 12 (nrows train0)" by (simp add: nrows_def)
  ultimately have d: "fc = drop_rows (min 12 (nrows train0)) fcf" using f(2) by simp
  have m: "fold max (forecast_lags @ forecast_windows) 0 = (12::nat)"
    by (simp add: forecast_lags_def forecast_windows_def)
  from r(1,2) f icc m d r(4) k2 show ?thesis
    by (simp add: nrows_def)
qed

lemma table_20_segments:
  "wf_frame (head_rows 18 table_20)" "wf_frame (drop_rows 18 table_20)"
  "get_col (head_rows 18 table_20) target = Inr (take 18 (map (\<lambda>i. Some (real i)) [0..<20]))"
  "get_col (drop_rows 18 table_20) target = Inr (drop 18 (map (\<lambda>i. Some (real i)) [0..<20]))"
  "distinct (index (head_rows 18 table_20) @ index (drop_rows 18 table_20))"
  "sorted (index (drop_rows 18 table_20))"
  by (simp_all add: table_20_def wf_head_rows wf_drop_rows wf_hourly_table get_col_head_rows
      get_col_drop_rows get_col_hourly_table)

theorem forecast_call_input_and_output_witness:
  "wf_frame (head_rows 18 table_20) \<and> wf_frame (drop_rows 18 table_20) \<and>
   get_col (head_rows 18 table_20) target = Inr (take 18 (map (\<lambda>i. Some (real i)) [0..<20])) \<and>
   get_col (drop_rows 18 table_20) target = Inr (drop 18 (map (\<lambda>i. Some (real i)) [0..<20])) \<and>
   distinct (index (head_rows 18 table_20) @ index (drop_rows 18 table_20)) \<and>
   sorted (index (drop_rows 18 table_20)) \<and>
   (\<exists>train fcf fc. lag_stage (head_rows 18 table_20) (drop_rows 18 table_20) = Inr (train, fc) \<and>
      index (concat_frames (tail_rows 12 train) (drop_rows 18 table_20)) = [6..<20] \<and>
      fc = drop_rows 12 fcf \<and> index fc = [18..<20])"
proof -
  from forecast_call_input_and_output[OF table_20_segments]
  obtain train fcf fc where r:
    "lag_stage (head_rows 18 table_20) (drop_rows 18 table_20) = Inr (train, fc)"
    "index (concat_frames (tail_rows 12 train) (drop_rows 18 table_20))
        = drop (nrows (head_rows 18 table_20) - 12) (index (head_rows 18 table_20))
          @ index (drop_rows 18 table_20)"
    "fc = drop_rows (min 12 (nrows (head_rows 18 table_20))) fcf"
    "index fc = index (drop_rows 18 table_20)"
    by blast
  have n: "nrows (head_rows 18 table_20) = 18" by (simp add: table_20_def)
  have "[6..<18] @ [18..<20] = [6..<20::nat]"
    using upt_add_eq_append[of 6 18 2] by simp
  then have i1: "index (concat_frames (tail_rows 12 train) (drop_rows 18 table_20)) = [6..<20]"
    unfolding r(2) n by (simp add: table_20_def)
  have i2: "fc = drop_rows 12 fcf" using r(3) n by simp
  have i3: "index fc = [18..<20]" unfolding r(4) by (simp add: table_20_def)
  from table_20_segments r(1) i1 i2 i3 show ?thesis by blast
qed

text \<open>The claim as stated fails on the 20 hourly rows: the call receives the 12 rows
  with timestamps 6 to 17 before the two forecast rows, where the last \<open>max(lags) = 3\<close>
  training rows would be the timestamps 15 to 17.\<close>

theorem spillover_is_twelve_rows_counterexample:
  "fold max forecast_lags 0 = 3 \<and>
   map_sum id index (forecast_call_input table_20) = Inr [6..<20] \<and>
   map_sum id index (spec_forecast_call_input table_20) = Inr [15..<20]"
proof -
  let ?s = "map (\<lambda>i. Some (real i)) [0..<20] :: series"
  have sp: "split (sort_index table_20) = (head_rows 18 table_20, drop_rows 18 table_20)"
    unfolding table_20_def sort_index_hourly_table split_eq nrows_hourly_table by simp
  from create_lag_features_cols[OF table_20_segments(3), of train_lags train_windows]
  obtain train where t: "create_lag_features (head_rows 18 table_20) train_lags train_windows = Inr train"
    "index train = index (head_rows 18 table_20)"
    by blast
  have it: "index train = [0..<18]" unfolding t(2) by (simp add: table_20_def)
  have a: "[6..<18] @ [18..<20] = [6..<20::nat]" using upt_add_eq_append[of 6 18 2] by simp
  have b: "[15..<18] @ [18..<20] = [15..<20::nat]" using upt_add_eq_append[of 15 18 2] by simp
  have m: "fold max forecast_lags 0 = (3::nat)" by (simp add: forecast_lags_def)
  have "index (forecast_input train (drop_rows 18 table_20)) = [6..<20]"
    by (simp add: forecast_input_def it a table_20_def)
  moreover have "index (spec_forecast_input forecast_lags train (drop_rows 18 table_20)) = [15..<20]"
    by (simp add: spec_forecast_input_def m it b table_20_def)
  ultimately show ?thesis
    using m by (simp add: forecast_call_input_def spec_forecast_call_input_def sp t(1))
qed

section \<open>Enrichment in closed form\<close>

lemma get_cols_set_col:
  "c \<notin> set cs \<Longrightarrow> get_cols (set_col df c s) cs = get_cols df cs"
  by (induction cs) (auto simp: get_col_set_col split: sum.splits)

lemma enrich_names_not_read:
  "''appliance_sum'' \<notin> set weekend_cols" "''furnace_on'' \<notin> set weekend_cols"
  "''net_energy_lag_1'' \<notin> set weekend_cols" "''hour_block'' \<notin> set weekend_cols"
  by (simp_all add: weekend_cols_def)

lemma enrich_features_eq:
  "enrich_features doy df =
     (case get_cols df appliance_cols of Inl e \<Rightarrow> Inl e | Inr apps \<Rightarrow>
      (case get_col df ''furnace'' of Inl e \<Rightarrow> Inl e | Inr fu \<Rightarrow>
      (case get_col df ''lag_1'' of Inl e \<Rightarrow> Inl e | Inr l \<Rightarrow>
      (case get_col df ''generated_solar'' of Inl e \<Rightarrow> Inl e | Inr g \<Rightarrow>
      (case get_col df ''hour'' of Inl e \<Rightarrow> Inl e | Inr ho \<Rightarrow>
      (case get_cols df weekend_cols of Inl e \<Rightarrow> Inl e | Inr we \<Rightarrow>
         Inr (set_cols df (enrich_values doy (index df) apps fu l g ho we))))))))"
  by (simp add: enrich_features_def enrich_assigns_def get_col_set_col get_cols_set_col
      enrich_names_not_read set_cols_def enrich_values_def dayofyear_col_def nrows_def
      del: get_cols.simps split: sum.splits)

lemma set_cols_Cons: "set_cols df (cv # cvs) = set_cols (set_col df (fst cv) (snd cv)) cvs"
  by (simp add: set_cols_def)

lemma index_set_cols [simp]: "index (set_cols df cvs) = index df"
  by (induction cvs arbitrary: df) (simp_all add: set_cols_Cons, simp add: set_cols_def)

lemma nrows_set_cols [simp]: "nrows (set_cols df cvs) = nrows df"
  by (simp add: nrows_def)

lemma get_col_set_cols:
  "distinct (map fst cvs) \<Longrightarrow>
   get_col (set_cols df cvs) c = (case map_of cvs c of None \<Rightarrow> get_col df c | Some s \<Rightarrow> Inr s)"
proof (induction cvs arbitrary: df)
  case Nil
  show ?case by (simp add: set_cols_def)
next
  case (Cons cv cvs)
  then have d: "distinct (map fst cvs)" and n: "fst cv \<notin> fst ` set cvs" by simp_all
  show ?case
  proof (cases "map_of cvs c")
    case None
    with Cons.IH[OF d] show ?thesis
      by (cases cv) (simp add: set_cols_Cons get_col_set_col)
  next
    case (Some s)
    then have "c \<in> fst ` set cvs" by (force dest: map_of_SomeD)
    with n have "c \<noteq> fst cv" by blast
    with Some Cons.IH[OF d] show ?thesis
      by (cases cv) (simp add: set_cols_Cons)
  qed
qed

lemma distinct_enrich_values:
  "distinct (map fst (enrich_values doy idx apps fu l g ho we))"
  by (simp add: enrich_values_def)

lemma names_enrich_values:
  "map fst (enrich_values doy idx apps fu l g ho we) = enrich_cols"
  by (simp add: enrich_values_def enrich_cols_def)

lemma get_col_enriched:
  "get_col (set_cols df (enrich_values doy idx apps fu l g ho we)) c =
     (case map_of (enrich_values doy idx apps fu l g ho we) c of
        None \<Rightarrow> get_col df c | Some s \<Rightarrow> Inr s)"
  by (rule get_col_set_cols[OF distinct_enrich_values])

lemma get_col_enriched_other:
  assumes "c \<notin> set enrich_cols"
  shows "get_col (set_cols df (enrich_values doy idx apps fu l g ho we)) c = get_col df c"
proof -
  have "set enrich_cols = fst ` set (enrich_values doy idx apps fu l g ho we)"
    unfolding names_enrich_values[of doy idx apps fu l g ho we, symmetric] by (rule set_map)
  with assms have "map_of (enrich_values doy idx apps fu l g ho we) c = None"
    by (simp only: map_of_eq_None_iff not_False_eq_True)
  then show ?thesis by (simp add: get_col_enriched)
qed

lemma enrich_features_InrE:
  assumes "enrich_features doy df = Inr out"
  obtains apps fu l g ho we where
    "get_cols df appliance_cols = Inr apps" "get_col df ''furnace'' = Inr fu"
    "get_col df ''lag_1'' = Inr l" "get_col df ''generated_solar'' = Inr g"
    "get_col df ''hour'' = Inr ho" "get_cols df weekend_cols = Inr we"
    "out = set_cols df (enrich_values doy (index df) apps fu l g ho we)"
  using assms unfolding enrich_features_eq by (auto split: sum.splits)

lemma index_enrich_features: "enrich_features doy df = Inr out \<Longrightarrow> index out = index df"
  unfolding enrich_features_def by (rule run_assigns_index)

lemma cell_sub_None [simp]: "cell_sub a None = None"
  by (simp add: cell_sub_def split: option.splits)

lemma enrich_net_energy_first:
  assumes "enrich_features doy d = Inr out" "wf_frame d" "0 < nrows d"
  shows "\<exists>col. get_col out ''net_energy_lag_1'' = Inr col \<and> length col = nrows d \<and>
     col ! 0 = None \<and> get_col out ''lag_1'' = get_col d ''lag_1''"
proof -
  from assms(1) obtain apps fu l g ho we where e:
    "get_col d ''lag_1'' = Inr l" "get_col d ''generated_solar'' = Inr g"
    "out = set_cols d (enrich_values doy (index d) apps fu l g ho we)"
    by (rule enrich_features_InrE)
  have ll: "length l = nrows d" and lg: "length g = nrows d"
    using wf_frame_col_length[OF assms(2)] e(1,2) by simp_all
  let ?col = "map2 cell_sub l (shift 1 g)"
  have "get_col out ''net_energy_lag_1'' = Inr ?col"
    unfolding e(3) get_col_enriched by (simp add: enrich_values_def)
  moreover have "length ?col = nrows d" using ll lg by simp
  moreover have "?col ! 0 = None"
    using ll lg assms(3) nth_shift[of 0 g 1] by simp
  moreover have "get_col out ''lag_1'' = get_col d ''lag_1''"
    unfolding e(3) by (rule get_col_enriched_other) (simp add: enrich_cols_def)
  ultimately show ?thesis by blast
qed

subsection \<open>The structure of a successful run\<close>

lemma notebook_InrE:
  assumes "notebook doy df = Inr (train, fc)"
  obtains tr1 fc1 where "split_and_lag df = Inr (tr1, fc1)"
    "enrich_features doy tr1 = Inr train" "enrich_features doy fc1 = Inr fc"
  using assms by (auto simp: notebook_def split: sum.splits prod.splits)

lemma split_and_lag_needs_target:
  assumes "split_and_lag df = Inr p"
  shows "\<exists>tgt. get_col (sort_index df) target = Inr tgt"
proof -
  let ?k = "nrows (sort_index df) * 9 div 10"
  from assms obtain tr where
    "create_lag_features (head_rows ?k (sort_index df)) train_lags train_windows = Inr tr"
    by (auto simp: split_and_lag_def split_eq lag_stage_def split: sum.splits)
  then obtain s where "get_col (head_rows ?k (sort_index df)) target = Inr s"
    using create_lag_features_needs_target unfolding train_lags_def by blast
  then show ?thesis
    by (cases "get_col (sort_index df) target") (simp_all add: get_col_head_rows)
qed

section \<open>Runs of the whole notebook\<close>

lemma get_cols_succeeds:
  "\<forall>c\<in>set cs. c \<in> fst ` set (columns d) \<Longrightarrow> \<exists>ss. get_cols d cs = Inr ss"
  by (induction cs) (auto simp: names_iff_get_col)

lemma enrich_succeeds:
  assumes "\<forall>c\<in>set enrich_reads. c \<in> fst ` set (columns d)"
  shows "\<exists>out. enrich_features doy d = Inr out"
proof -
  from assms have "\<forall>c\<in>set appliance_cols. c \<in> fst ` set (columns d)"
    "\<forall>c\<in>set weekend_cols. c \<in> fst ` set (columns d)"
    by (simp_all add: enrich_reads_def)
  then obtain apps we where "get_cols d appliance_cols = Inr apps" "get_cols d weekend_cols = Inr we"
    using get_cols_succeeds by blast
  moreover from assms obtain fu l g ho where "get_col d ''furnace'' = Inr fu"
    "get_col d ''lag_1'' = Inr l" "get_col d ''generated_solar'' = Inr g"
    "get_col d ''hour'' = Inr ho"
    by (auto simp: enrich_reads_def names_iff_get_col)
  ultimately show ?thesis by (simp add: enrich_features_eq)
qed

lemma input_cols_not_generated:
  assumes "c \<in> set input_cols"
  shows "c \<notin> range lag_name \<union> range roll_name"
proof -
  have "c \<noteq> lag_name k" "c \<noteq> roll_name k" for k
    using assms
    by (auto simp: input_cols_def appliance_cols_def weekend_cols_def lag_name_def roll_name_def)
  then show ?thesis by auto
qed

lemma enrich_reads_split: "set enrich_reads \<subseteq> insert (lag_name 1) (set input_cols)"
  unfolding lag_name_literals by (auto simp: enrich_reads_def input_cols_def)

lemma notebook_succeeds:
  fixes df :: "('ts::linorder) frame"
  assumes "wf_frame df" "distinct (index df)"
    and cols: "\<forall>c\<in>set input_cols. c \<in> fst ` set (columns df)"
  shows "\<exists>train fc. notebook doy df = Inr (train, fc)"
proof -
  let ?k = "nrows df * 9 div 10"
  have "target \<in> fst ` set (columns (sort_index df))"
    using cols by (simp add: input_cols_def target_def)
  then obtain tgt where tg: "get_col (sort_index df) target = Inr tgt"
    using names_iff_get_col[of target "sort_index df"] by blast
  from split_and_lag_result[OF assms(1,2) tg]
  obtain tr1 fc1 where r: "split_and_lag df = Inr (tr1, fc1)"
    "create_lag_features (head_rows ?k (sort_index df)) train_lags train_windows = Inr tr1"
    "\<forall>c\<in>set forecast_lags. get_col fc1 (lag_name c) =
        Inr (map (\<lambda>j. if min 12 ?k + j < c then None else tgt ! (?k + j - c)) [0..<nrows df - ?k])"
    "\<forall>c. c \<notin> lag_name ` set forecast_lags \<union> roll_name ` set forecast_windows \<longrightarrow>
        get_col fc1 c =
          (if c \<in> fst ` set (columns df) then map_sum id (drop ?k) (get_col (sort_index df) c)
           else if c \<in> fst ` set (columns tr1) then Inr (replicate (nrows df - ?k) None)
           else Inl (KeyError c))"
    by blast
  have "get_col (head_rows ?k (sort_index df)) target = Inr (take ?k tgt)"
    by (simp add: get_col_head_rows tg)
  from names_create_lag_features[OF this r(2)]
  have n1: "fst ` set (columns tr1) =
      fst ` set (columns df) \<union> lag_name ` set train_lags \<union> roll_name ` set train_windows"
    by simp
  have e1: "\<forall>c\<in>set enrich_reads. c \<in> fst ` set (columns tr1)"
    using enrich_reads_split cols unfolding n1 by (auto simp: train_lags_def)
  have e2: "\<forall>c\<in>set enrich_reads. c \<in> fst ` set (columns fc1)"
  proof
    fix c assume "c \<in> set enrich_reads"
    then consider "c = lag_name 1" | "c \<in> set input_cols" using enrich_reads_split by auto
    then show "c \<in> fst ` set (columns fc1)"
    proof cases
      case 1
      with r(3) show ?thesis by (simp add: names_iff_get_col forecast_lags_def)
    next
      case 2
      with input_cols_not_generated[OF 2]
      have a: "c \<notin> lag_name ` set forecast_lags \<union> roll_name ` set forecast_windows" by auto
      from 2 cols obtain s where "get_col (sort_index df) c = Inr s"
        using names_iff_get_col[of c "sort_index df"] by auto
      with r(4)[rule_format, OF a] 2 cols show ?thesis by (simp add: names_iff_get_col)
    qed
  qed
  from enrich_succeeds[OF e1, of doy] enrich_succeeds[OF e2, of doy] r(1)
  show ?thesis by (auto simp: notebook_def)
qed

lemma notebook_indexes:
  fixes df :: "('ts::linorder) frame"
  assumes "notebook doy df = Inr (train, fc)" "wf_frame df" "distinct (index df)"
  shows "index train = take (nrows df * 9 div 10) (sort (index df))"
    and "index fc = drop (nrows df * 9 div 10) (sort (index df))"
proof -
  from assms(1) obtain tr1 fc1 where n: "split_and_lag df = Inr (tr1, fc1)"
    "enrich_features doy tr1 = Inr train" "enrich_features doy fc1 = Inr fc"
    by (rule notebook_InrE)
  from split_and_lag_needs_target[OF n(1)] obtain tgt
    where tg: "get_col (sort_index df) target = Inr tgt" ..
  from split_and_lag_result[OF assms(2,3) tg] n(1)
  have "index tr1 = take (nrows df * 9 div 10) (sort (index df))"
    "index fc1 = drop (nrows df * 9 div 10) (sort (index df))"
    by auto
  with index_enrich_features[OF n(2)] index_enrich_features[OF n(3)]
  show "index train = take (nrows df * 9 div 10) (sort (index df))"
    and "index fc = drop (nrows df * 9 div 10) (sort (index df))"
    by simp_all
qed

lemma full_table_facts:
  "wf_frame full_table" "distinct (index full_table)"
  "\<forall>c\<in>set input_cols. c \<in> fst ` set (columns full_table)"
  "sort_index full_table = full_table"
  "get_col full_table target = Inr (map (\<lambda>i. Some (real i)) [0..<20])"
  "nrows full_table = 20" "index full_table = [0..<20]"
proof -
  show w: "wf_frame full_table"
    by (simp add: wf_frame_def full_table_def appliance_cols_def weekend_cols_def)
  show "distinct (index full_table)" by (simp add: full_table_def)
  show "\<forall>c\<in>set input_cols. c \<in> fst ` set (columns full_table)"
    by (simp add: full_table_def input_cols_def appliance_cols_def weekend_cols_def)
  show "sort_index full_table = full_table"
    by (rule sort_index_sorted[OF w]) (simp add: full_table_def)
  show "get_col full_table target = Inr (map (\<lambda>i. Some (real i)) [0..<20])"
    by (simp add: get_col_def full_table_def target_def)
  show "nrows full_table = 20" "index full_table = [0..<20]"
    by (simp_all add: nrows_def full_table_def)
qed

lemma sort_index_rows:
  fixes df :: "('ts::linorder) frame"
  assumes "distinct (index df)" "get_col df c = Inr s"
  shows "\<exists>s'. get_col (sort_index df) c = Inr s' \<and> length s' = nrows df \<and>
     (\<forall>i<nrows df. \<forall>j<nrows df. index (sort_index df) ! i = index df ! j \<longrightarrow> s' ! i = s ! j)"
proof -
  let ?p = "sort_key (\<lambda>i. index df ! i) [0..<nrows df]"
  have g: "get_col (sort_index df) c = Inr (map (\<lambda>i. s ! i) ?p)"
    by (simp add: sort_index_def get_col_take_rows assms(2))
  have l: "length ?p = nrows df" by simp
  have i: "index (sort_index df) = map (\<lambda>i. index df ! i) ?p"
    by (simp add: sort_index_def)
  have "map (\<lambda>i. s ! i) ?p ! a = s ! b"
    if "a < nrows df" "b < nrows df" "index (sort_index df) ! a = index df ! b" for a b
  proof -
    from that(1) have "?p ! a \<in> set ?p" using l by (simp only: nth_mem)
    then have lt: "?p ! a < nrows df" by simp
    from that(1,3) have "index df ! (?p ! a) = index df ! b" unfolding i using l by simp
    with assms(1) lt that(2) have "?p ! a = b"
      by (simp add: nth_eq_iff_index_eq nrows_def)
    with that(1) l show ?thesis by simp
  qed
  with g l show ?thesis by auto
qed

lemma notebook_input_columns:
  fixes df :: "('ts::linorder) frame"
  assumes nb: "notebook doy df = Inr (train, fc)" and wf: "wf_frame df"
    and di: "distinct (index df)"
    and c: "c \<in> fst ` set (columns df)"
      "c \<notin> lag_name ` set train_lags \<union> roll_name ` set train_windows \<union> set enrich_cols"
  shows "get_col train c = map_sum id (take (nrows df * 9 div 10)) (get_col (sort_index df) c)"
    and "get_col fc c = map_sum id (drop (nrows df * 9 div 10)) (get_col (sort_index df) c)"
proof -
  let ?k = "nrows df * 9 div 10"
  from nb obtain tr1 fc1 where n: "split_and_lag df = Inr (tr1, fc1)"
    "enrich_features doy tr1 = Inr train" "enrich_features doy fc1 = Inr fc"
    by (rule notebook_InrE)
  from split_and_lag_needs_target[OF n(1)] obtain tgt
    where tg: "get_col (sort_index df) target = Inr tgt" ..
  from split_and_lag_result[OF wf di tg] n(1)
  have r: "create_lag_features (head_rows ?k (sort_index df)) train_lags train_windows = Inr tr1"
    "\<forall>c. c \<notin> lag_name ` set forecast_lags \<union> roll_name ` set forecast_windows \<longrightarrow>
        get_col fc1 c =
          (if c \<in> fst ` set (columns df) then map_sum id (drop ?k) (get_col (sort_index df) c)
           else if c \<in> fst ` set (columns tr1) then Inr (replicate (nrows df - ?k) None)
           else Inl (KeyError c))"
    by auto
  have "get_col (head_rows ?k (sort_index df)) target = Inr (take ?k tgt)"
    by (simp add: get_col_head_rows tg)
  from create_lag_features_cols[OF this, of train_lags train_windows] r(1)
  have "\<forall>c. c \<notin> lag_name ` set train_lags \<union> roll_name ` set train_windows \<longrightarrow>
      get_col tr1 c = get_col (head_rows ?k (sort_index df)) c"
    by auto
  with c(2) have t1: "get_col tr1 c = map_sum id (take ?k) (get_col (sort_index df) c)"
    by (simp add: get_col_head_rows)
  have "set forecast_lags \<subseteq> set train_lags" "set forecast_windows \<subseteq> set train_windows"
    by (simp_all add: forecast_lags_def train_lags_def forecast_windows_def train_windows_def)
  with c(2) have "c \<notin> lag_name ` set forecast_lags \<union> roll_name ` set forecast_windows"
    by blast
  with r(2) c(1) have f1: "get_col fc1 c = map_sum id (drop ?k) (get_col (sort_index df) c)"
    by simp
  from c(2) have e: "c \<notin> set enrich_cols" by simp
  from n(2) obtain apps fu l g ho we
    where "train = set_cols tr1 (enrich_values doy (index tr1) apps fu l g ho we)"
    by (rule enrich_features_InrE)
  with t1 show "get_col train c = map_sum id (take ?k) (get_col (sort_index df) c)"
    by (simp add: get_col_enriched_other[OF e])
  from n(3) obtain apps fu l g ho we
    where "fc = set_cols fc1 (enrich_values doy (index fc1) apps fu l g ho we)"
    by (rule enrich_features_InrE)
  with f1 show "get_col fc c = map_sum id (drop ?k) (get_col (sort_index df) c)"
    by (simp add: get_col_enriched_other[OF e])
qed

lemma unsorted_table_facts:
  "wf_frame unsorted_table" "distinct (index unsorted_table)"
  "\<forall>c\<in>set input_cols. c \<in> fst ` set (columns unsorted_table)"
  "index unsorted_table = [3, 1, 4, 0, 2]"
  "get_col unsorted_table target = Inr [Some 30, Some 10, Some 40, Some 0, Some 20]"
  "get_col unsorted_table ''hour'' = Inr [Some 3, Some 1, Some 4, Some 0, Some 2]"
  "nrows unsorted_table = 5"
  "target \<in> fst ` set (columns unsorted_table)" "''hour'' \<in> fst ` set (columns unsorted_table)"
  "target \<notin> lag_name ` set train_lags \<union> roll_name ` set train_windows \<union> set enrich_cols"
  "''hour'' \<notin> lag_name ` set train_lags \<union> roll_name ` set train_windows \<union> set enrich_cols"
proof -
  show "wf_frame unsorted_table"
    by (simp add: wf_frame_def unsorted_table_def appliance_cols_def weekend_cols_def)
  show "distinct (index unsorted_table)" by (simp add: unsorted_table_def)
  show "\<forall>c\<in>set input_cols. c \<in> fst ` set (columns unsorted_table)"
    by (simp add: unsorted_table_def input_cols_def appliance_cols_def weekend_cols_def)
  show "index unsorted_table = [3, 1, 4, 0, 2]" by (simp add: unsorted_table_def)
  show "get_col unsorted_table target = Inr [Some 30, Some 10, Some 40, Some 0, Some 20]"
    by (simp add: get_col_def unsorted_table_def target_def)
  show "get_col unsorted_table ''hour'' = Inr [Some 3, Some 1, Some 4, Some 0, Some 2]"
    by (simp add: get_col_def unsorted_table_def)
  show "nrows unsorted_table = 5" by (simp add: nrows_def unsorted_table_def)
  show "target \<in> fst ` set (columns unsorted_table)" "''hour'' \<in> fst ` set (columns unsorted_table)"
    by (simp_all add: unsorted_table_def target_def)
  show "target \<notin> lag_name ` set train_lags \<union> roll_name ` set train_windows \<union> set enrich_cols"
    "''hour'' \<notin> lag_name ` set train_lags \<union> roll_name ` set train_windows \<union> set enrich_cols"
    by (auto simp: target_def lag_name_def roll_name_def enrich_cols_def)
qed

lemma sort_index_unsorted_table:
  "index (sort_index unsorted_table) = [0, 1, 2, 3, 4]"
  "get_col (sort_index unsorted_table) target = Inr [Some 0, Some 10, Some 20, Some 30, Some 40]"
  "get_col (sort_index unsorted_table) ''hour'' = Inr [Some 0, Some 1, Some 2, Some 3, Some 4]"
proof -
  have u: "[0..<5] = [0, 1, 2, 3, 4::nat]" by (simp add: upt_rec)
  have p: "sort_key (\<lambda>i. index unsorted_table ! i) [0..<nrows unsorted_table] = [3, 1, 4, 0, 2]"
    unfolding unsorted_table_facts(4,7) u by simp
  show "index (sort_index unsorted_table) = [0, 1, 2, 3, 4]"
    unfolding sort_index_def p by (simp add: unsorted_table_facts(4))
  show "get_col (sort_index unsorted_table) target = Inr [Some 0, Some 10, Some 20, Some 30, Some 40]"
    unfolding sort_index_def p get_col_take_rows unsorted_table_facts(5) by simp
  show "get_col (sort_index unsorted_table) ''hour'' = Inr [Some 0, Some 1, Some 2, Some 3, Some 4]"
    unfolding sort_index_def p get_col_take_rows unsorted_table_facts(6) by simp
qed

lemma notebook_rows:
  fixes df :: "('ts::linorder) frame"
  assumes nb: "notebook doy df = Inr (train, fc)" and wf: "wf_frame df"
    and di: "distinct (index df)"
    and g: "get_col df c = Inr s"
    and c: "c \<notin> lag_name ` set train_lags \<union> roll_name ` set train_windows \<union> set enrich_cols"
  shows "\<exists>a b. get_col train c = Inr a \<and> get_col fc c = Inr b \<and>
     length a = nrows train \<and> length b = nrows fc \<and>
     (\<forall>i<nrows train. \<forall>j<nrows df. index train ! i = index df ! j \<longrightarrow> a ! i = s ! j) \<and>
     (\<forall>i<nrows fc. \<forall>j<nrows df. index fc ! i = index df ! j \<longrightarrow> b ! i = s ! j)"
proof -
  let ?k = "nrows df * 9 div 10"
  have k: "?k \<le> nrows df" by simp
  from sort_index_rows[OF di g] obtain s' where s': "get_col (sort_index df) c = Inr s'"
    "length s' = nrows df"
    "\<forall>i<nrows df. \<forall>j<nrows df. index (sort_index df) ! i = index df ! j \<longrightarrow> s' ! i = s ! j"
    by blast
  from g have cin: "c \<in> fst ` set (columns df)" by (auto simp: names_iff_get_col)
  note o = notebook_input_columns[OF nb wf di cin c]
  note i = notebook_indexes[OF nb wf di]
  have li: "length (index (sort_index df)) = nrows df"
    using nrows_sort_index[of df] by (simp only: nrows_def)
  have n1: "nrows train = ?k" using k li by (simp add: nrows_def i index_sort_index[symmetric])
  have n2: "nrows fc = nrows df - ?k" using li by (simp add: nrows_def i index_sort_index[symmetric])
  have a: "get_col train c = Inr (take ?k s')" using o(1) s'(1) by simp
  have b: "get_col fc c = Inr (drop ?k s')" using o(2) s'(1) by simp
  have la: "length (take ?k s') = nrows train" using k s'(2) n1 by simp
  have lb: "length (drop ?k s') = nrows fc" using s'(2) n2 by simp
  have ra: "\<forall>i<nrows train. \<forall>j<nrows df. index train ! i = index df ! j \<longrightarrow> take ?k s' ! i = s ! j"
  proof (intro allI impI)
    fix i j assume h: "i < nrows train" "j < nrows df" "index train ! i = index df ! j"
    from h(1) n1 k have "i < ?k" "i < nrows df" by simp_all
    moreover from h(3) \<open>i < ?k\<close> have "index (sort_index df) ! i = index df ! j"
      by (simp add: i index_sort_index)
    ultimately show "take ?k s' ! i = s ! j" using s'(3) h(2) by simp
  qed
  have rb: "\<forall>i<nrows fc. \<forall>j<nrows df. index fc ! i = index df ! j \<longrightarrow> drop ?k s' ! i = s ! j"
  proof (intro allI impI)
    fix i j assume h: "i < nrows fc" "j < nrows df" "index fc ! i = index df ! j"
    from h(1) n2 have lt: "?k + i < nrows df" by simp
    with h(3) li have "index (sort_index df) ! (?k + i) = index df ! j"
      by (simp add: i index_sort_index)
    with s'(3) lt h(2) have "s' ! (?k + i) = s ! j" by blast
    with lt s'(2) show "drop ?k s' ! i = s ! j" by simp
  qed
  from a b la lb ra rb show ?thesis by blast
qed

section \<open>The two output segments partition the timestamps\<close>

text \<open>
  Claim C4. For a table with unique timestamps on which the notebook runs through, the
  table is sorted ascending by timestamp before it is split, and the timestamps of the
  training output followed by those of the final forecast output are exactly the sorted
  timestamps of the input: the two outputs share no timestamp and every training
  timestamp is earlier than every forecast timestamp. Sorting moves the rows with their
  timestamps: in every column the sorted table has, at a timestamp, the cell the input
  has at that timestamp. So do the two outputs: in every column of the input that is not
  the name of a generated or an enrichment column, each output row holds the cell of the
  input row with the same timestamp, the training output being the first rows of the
  sorted table and the forecast output the remaining ones.
\<close>

theorem train_forecast_partition:
  fixes df :: "('ts::linorder) frame"
  assumes "notebook doy df = Inr (train, fc)" "wf_frame df" "distinct (index df)"
  shows "index (sort_index df) = sort (index df) \<and>
    index train = index (fst (split (sort_index df))) \<and>
    index fc = index (snd (split (sort_index df))) \<and>
    index train @ index fc = sort (index df) \<and>
    set (index train) \<inter> set (index fc) = {} \<and>
    (\<forall>t\<in>set (index train). \<forall>u\<in>set (index fc). t < u) \<and>
    (\<forall>c s. get_col df c = Inr s \<longrightarrow>
       (\<exists>s'. get_col (sort_index df) c = Inr s' \<and> length s' = nrows df \<and>
          (\<forall>i<nrows df. \<forall>j<nrows df.
             index (sort_index df) ! i = index df ! j \<longrightarrow> s' ! i = s ! j))) \<and>
    (\<forall>c. c \<in> fst ` set (columns df) \<and>
         c \<notin> lag_name ` set train_lags \<union> roll_name ` set train_windows \<union> set enrich_cols \<longrightarrow>
       get_col train c = get_col (fst (split (sort_index df))) c \<and>
       get_col fc c = get_col (snd (split (sort_index df))) c \<and>
       get_col train c = map_sum id (take (nrows df * 9 div 10)) (get_col (sort_index df) c) \<and>
       get_col fc c = map_sum id (drop (nrows df * 9 div 10)) (get_col (sort_index df) c)) \<and>
    (\<forall>c s. get_col df c = Inr s \<and>
         c \<notin> lag_name ` set train_lags \<union> roll_name ` set train_windows \<union> set enrich_cols \<longrightarrow>
       (\<exists>a b. get_col train c = Inr a \<and> get_col fc c = Inr b \<and>
          length a = nrows train \<and> length b = nrows fc \<and>
          (\<forall>i<nrows train. \<forall>j<nrows df. index train ! i = index df ! j \<longrightarrow> a ! i = s ! j) \<and>
          (\<forall>i<nrows fc. \<forall>j<nrows df. index fc ! i = index df ! j \<longrightarrow> b ! i = s ! j)))"
proof -
  let ?k = "nrows df * 9 div 10"
  let ?xs = "sort (index df)"
  have i: "index train = take ?k ?xs" "index fc = drop ?k ?xs"
    using notebook_indexes[OF assms] by simp_all
  have d: "distinct (take ?k ?xs @ drop ?k ?xs)" using assms(3) by simp
  have s: "sorted (take ?k ?xs @ drop ?k ?xs)" by simp
  from d have disj: "set (take ?k ?xs) \<inter> set (drop ?k ?xs) = {}"
    unfolding distinct_append by blast
  from s have le: "\<forall>t\<in>set (take ?k ?xs). \<forall>u\<in>set (drop ?k ?xs). t \<le> u"
    unfolding sorted_append by blast
  have lt: "\<forall>t\<in>set (take ?k ?xs). \<forall>u\<in>set (drop ?k ?xs). t < u"
  proof (intro ballI)
    fix t u assume tu: "t \<in> set (take ?k ?xs)" "u \<in> set (drop ?k ?xs)"
    with disj have "t \<noteq> u" by blast
    with le tu show "t < u" by (simp add: order.strict_iff_order)
  qed
  have ts: "index (sort_index df) = sort (index df)"
    "index train = index (fst (split (sort_index df)))"
    "index fc = index (snd (split (sort_index df)))"
    "index train @ index fc = sort (index df)"
    by (simp_all add: i index_sort_index split_eq)
  have ts': "set (index train) \<inter> set (index fc) = {}"
    "\<forall>t\<in>set (index train). \<forall>u\<in>set (index fc). t < u"
    using disj lt unfolding i by blast+
  have so: "\<forall>c s. get_col df c = Inr s \<longrightarrow>
       (\<exists>s'. get_col (sort_index df) c = Inr s' \<and> length s' = nrows df \<and>
          (\<forall>i<nrows df. \<forall>j<nrows df.
             index (sort_index df) ! i = index df ! j \<longrightarrow> s' ! i = s ! j))"
    by (intro allI impI) (rule sort_index_rows[OF assms(3)])
  have co: "\<forall>c. c \<in> fst ` set (columns df) \<and>
         c \<notin> lag_name ` set train_lags \<union> roll_name ` set train_windows \<union> set enrich_cols \<longrightarrow>
       get_col train c = get_col (fst (split (sort_index df))) c \<and>
       get_col fc c = get_col (snd (split (sort_index df))) c \<and>
       get_col train c = map_sum id (take ?k) (get_col (sort_index df) c) \<and>
       get_col fc c = map_sum id (drop ?k) (get_col (sort_index df) c)"
  proof (intro allI impI, elim conjE)
    fix c assume c: "c \<in> fst ` set (columns df)"
      "c \<notin> lag_name ` set train_lags \<union> roll_name ` set train_windows \<union> set enrich_cols"
    note o = notebook_input_columns[OF assms c]
    show "get_col train c = get_col (fst (split (sort_index df))) c \<and>
       get_col fc c = get_col (snd (split (sort_index df))) c \<and>
       get_col train c = map_sum id (take ?k) (get_col (sort_index df) c) \<and>
       get_col fc c = map_sum id (drop ?k) (get_col (sort_index df) c)"
      unfolding split_eq nrows_sort_index fst_conv snd_conv get_col_head_rows get_col_drop_rows
      using o by (intro conjI)
  qed
  have ro: "\<forall>c s. get_col df c = Inr s \<and>
         c \<notin> lag_name ` set train_lags \<union> roll_name ` set train_windows \<union> set enrich_cols \<longrightarrow>
       (\<exists>a b. get_col train c = Inr a \<and> get_col fc c = Inr b \<and>
          length a = nrows train \<and> length b = nrows fc \<and>
          (\<forall>i<nrows train. \<forall>j<nrows df. index train ! i = index df ! j \<longrightarrow> a ! i = s ! j) \<and>
          (\<forall>i<nrows fc. \<forall>j<nrows df. index fc ! i = index df ! j \<longrightarrow> b ! i = s ! j))"
    by (intro allI impI, elim conjE) (rule notebook_rows[OF assms])
  from ts ts' so co ro show ?thesis by (intro conjI)
qed

theorem train_forecast_partition_witness:
  "wf_frame unsorted_table \<and> distinct (index unsorted_table) \<and>
   index unsorted_table = [3, 1, 4, 0, 2] \<and>
   get_col unsorted_table ''use_house_overall''
     = Inr [Some 30, Some 10, Some 40, Some 0, Some 20] \<and>
   get_col unsorted_table ''hour'' = Inr [Some 3, Some 1, Some 4, Some 0, Some 2] \<and>
   (\<exists>train fc. notebook day_of_hour unsorted_table = Inr (train, fc) \<and>
      index train = [0, 1, 2, 3] \<and> index fc = [4] \<and>
      set (index train) \<inter> set (index fc) = {} \<and>
      get_col train ''use_house_overall'' = Inr [Some 0, Some 10, Some 20, Some 30] \<and>
      get_col fc ''use_house_overall'' = Inr [Some 40] \<and>
      get_col train ''hour'' = Inr [Some 0, Some 1, Some 2, Some 3] \<and>
      get_col fc ''hour'' = Inr [Some 4])"
proof -
  from notebook_succeeds[OF unsorted_table_facts(1-3), of day_of_hour]
  obtain train fc where n: "notebook day_of_hour unsorted_table = Inr (train, fc)" by blast
  note p = train_forecast_partition[OF n unsorted_table_facts(1,2)]
  have k: "nrows unsorted_table * 9 div 10 = 4" by (simp add: unsorted_table_facts(7))
  note p2 = p[THEN conjunct2]
  note p3 = p2[THEN conjunct2]
  note p5 = p3[THEN conjunct2, THEN conjunct2]
  note p8 = p5[THEN conjunct2, THEN conjunct2, THEN conjunct2]
  note c = p2[THEN conjunct1] and d = p3[THEN conjunct1] and b = p5[THEN conjunct1]
    and e = p8[THEN conjunct1, rule_format]
  have i: "index train = [0, 1, 2, 3]" "index fc = [4]"
    unfolding c d split_eq fst_conv snd_conv index_head_rows index_drop_rows
      nrows_sort_index k sort_index_unsorted_table(1)
    by simp_all
  note et = e[OF conjI[OF unsorted_table_facts(8) unsorted_table_facts(10)],
      unfolded k sort_index_unsorted_table(2)]
  have t: "get_col train target = Inr [Some 0, Some 10, Some 20, Some 30]"
    "get_col fc target = Inr [Some 40]"
    using et[THEN conjunct2, THEN conjunct2, THEN conjunct1]
      et[THEN conjunct2, THEN conjunct2, THEN conjunct2]
    by simp_all
  note eh = e[OF conjI[OF unsorted_table_facts(9) unsorted_table_facts(11)],
      unfolded k sort_index_unsorted_table(3)]
  have h: "get_col train ''hour'' = Inr [Some 0, Some 1, Some 2, Some 3]"
    "get_col fc ''hour'' = Inr [Some 4]"
    using eh[THEN conjunct2, THEN conjunct2, THEN conjunct1]
      eh[THEN conjunct2, THEN conjunct2, THEN conjunct2]
    by simp_all
  from unsorted_table_facts(5) have u: "get_col unsorted_table ''use_house_overall''
     = Inr [Some 30, Some 10, Some 40, Some 0, Some 20]"
    by (simp only: target_def)
  from t have t': "get_col train ''use_house_overall'' = Inr [Some 0, Some 10, Some 20, Some 30]"
    "get_col fc ''use_house_overall'' = Inr [Some 40]"
    by (simp_all only: target_def)
  from n i b t' h have "\<exists>train fc. notebook day_of_hour unsorted_table = Inr (train, fc) \<and>
      index train = [0, 1, 2, 3] \<and> index fc = [4] \<and>
      set (index train) \<inter> set (index fc) = {} \<and>
      get_col train ''use_house_overall'' = Inr [Some 0, Some 10, Some 20, Some 30] \<and>
      get_col fc ''use_house_overall'' = Inr [Some 40] \<and>
      get_col train ''hour'' = Inr [Some 0, Some 1, Some 2, Some 3] \<and>
      get_col fc ''hour'' = Inr [Some 4]"
    by (intro exI conjI)
  with unsorted_table_facts(1,2,4,6) u show ?thesis by (intro conjI)
qed

section \<open>The net energy column on the first row of a segment\<close>

text \<open>
  Claim C10. In each enriched segment that has a row, the column \<open>net_energy_lag_1\<close> is
  missing on the first row, because \<open>generated_solar\<close> is shifted inside the segment. This
  includes the first forecast row, although its \<open>lag_1\<close> is the target of the last
  training row (taken from the spillover rows before they are discarded).
\<close>

theorem net_energy_lag_1_first_row:
  fixes df :: "('ts::linorder) frame"
  assumes "notebook doy df = Inr (train, fc)" "wf_frame df" "distinct (index df)"
    and "get_col (sort_index df) target = Inr tgt"
  shows "(0 < nrows train \<longrightarrow>
      (\<exists>col. get_col train ''net_energy_lag_1'' = Inr col \<and> length col = nrows train \<and>
         col ! 0 = None)) \<and>
    (0 < nrows fc \<longrightarrow>
      (\<exists>col l. get_col fc ''net_energy_lag_1'' = Inr col \<and> length col = nrows fc \<and>
         col ! 0 = None \<and>
         get_col fc ''lag_1'' = Inr l \<and> length l = nrows fc \<and>
         (0 < nrows train \<longrightarrow> l ! 0 = tgt ! (nrows train - 1))))"
proof -
  let ?k = "nrows df * 9 div 10"
  let ?m = "nrows df - ?k"
  from assms(1) obtain tr1 fc1 where n: "split_and_lag df = Inr (tr1, fc1)"
    "enrich_features doy tr1 = Inr train" "enrich_features doy fc1 = Inr fc"
    by (rule notebook_InrE)
  from split_and_lag_result[OF assms(2,3,4)] n(1)
  have r: "wf_frame tr1" "wf_frame fc1"
    "index tr1 = take ?k (sort (index df))" "index fc1 = drop ?k (sort (index df))"
    "\<forall>c\<in>set forecast_lags. get_col fc1 (lag_name c) =
        Inr (map (\<lambda>j. if min 12 ?k + j < c then None else tgt ! (?k + j - c)) [0..<?m])"
    by auto
  have nt: "nrows train = nrows tr1" "nrows fc = nrows fc1"
    using index_enrich_features[OF n(2)] index_enrich_features[OF n(3)]
    by (simp_all add: nrows_def)
  have k: "nrows tr1 = ?k" "nrows fc1 = ?m" by (simp_all add: nrows_def r(3,4))
  have A: "0 < nrows train \<longrightarrow>
      (\<exists>col. get_col train ''net_energy_lag_1'' = Inr col \<and> length col = nrows train \<and>
         col ! 0 = None)"
    using enrich_net_energy_first[OF n(2) r(1)] nt by auto
  have B: "0 < nrows fc \<longrightarrow>
      (\<exists>col l. get_col fc ''net_energy_lag_1'' = Inr col \<and> length col = nrows fc \<and>
         col ! 0 = None \<and>
         get_col fc ''lag_1'' = Inr l \<and> length l = nrows fc \<and>
         (0 < nrows train \<longrightarrow> l ! 0 = tgt ! (nrows train - 1)))"
  proof
    assume p: "0 < nrows fc"
    then have "0 < nrows fc1" using nt by simp
    from enrich_net_energy_first[OF n(3) r(2) this]
    obtain col where c: "get_col fc ''net_energy_lag_1'' = Inr col" "length col = nrows fc1"
      "col ! 0 = None" "get_col fc ''lag_1'' = get_col fc1 ''lag_1''"
      by blast
    let ?l = "map (\<lambda>j. if min 12 ?k + j < 1 then None else tgt ! (?k + j - 1)) [0..<?m]"
    have "1 \<in> set forecast_lags" by (simp add: forecast_lags_def)
    from r(5)[rule_format, OF this] have "get_col fc1 (lag_name 1) = Inr ?l" .
    then have l: "get_col fc ''lag_1'' = Inr ?l"
      unfolding lag_name_literals c(4) .
    have lc: "length col = nrows fc" using c(2) nt by simp
    have ll: "length ?l = nrows fc" using nt k by simp
    have l0: "0 < nrows train \<longrightarrow> ?l ! 0 = tgt ! (nrows train - 1)"
      using p nt k by auto
    have "get_col fc ''net_energy_lag_1'' = Inr col \<and> length col = nrows fc \<and>
         col ! 0 = None \<and>
         get_col fc ''lag_1'' = Inr ?l \<and> length ?l = nrows fc \<and>
         (0 < nrows train \<longrightarrow> ?l ! 0 = tgt ! (nrows train - 1))"
      by (intro conjI) (fact c(1) lc c(3) l ll l0)+
    then show "\<exists>col l. get_col fc ''net_energy_lag_1'' = Inr col \<and> length col = nrows fc \<and>
         col ! 0 = None \<and>
         get_col fc ''lag_1'' = Inr l \<and> length l = nrows fc \<and>
         (0 < nrows train \<longrightarrow> l ! 0 = tgt ! (nrows train - 1))"
      by (intro exI)
  qed
  from A B show ?thesis by blast
qed

theorem net_energy_lag_1_first_row_witness:
  "wf_frame full_table \<and> distinct (index full_table) \<and>
   get_col (sort_index full_table) target = Inr (map (\<lambda>i. Some (real i)) [0..<20]) \<and>
   (\<exists>train fc c1 c2 l. notebook day_of_hour full_table = Inr (train, fc) \<and>
      nrows train = 18 \<and> nrows fc = 2 \<and>
      get_col train ''net_energy_lag_1'' = Inr c1 \<and> c1 ! 0 = None \<and>
      get_col fc ''net_energy_lag_1'' = Inr c2 \<and> c2 ! 0 = None \<and>
      get_col fc ''lag_1'' = Inr l \<and> l ! 0 = Some 17)"
proof -
  let ?s = "map (\<lambda>i. Some (real i)) [0..<20] :: series"
  have tg: "get_col (sort_index full_table) target = Inr ?s"
    by (simp add: full_table_facts(4,5))
  from notebook_succeeds[OF full_table_facts(1-3), of day_of_hour]
  obtain train fc where n: "notebook day_of_hour full_table = Inr (train, fc)" by blast
  from notebook_indexes[OF n full_table_facts(1,2)]
  have sz: "nrows train = 18" "nrows fc = 2"
    by (simp_all add: nrows_def full_table_facts(6,7) sorted_sort_id)
  note p = net_energy_lag_1_first_row[OF n full_table_facts(1,2) tg]
  from p sz obtain c1 where c1: "get_col train ''net_energy_lag_1'' = Inr c1" "c1 ! 0 = None"
    by auto
  from p sz obtain c2 l where c2: "get_col fc ''net_energy_lag_1'' = Inr c2" "c2 ! 0 = None"
    "get_col fc ''lag_1'' = Inr l" "l ! 0 = ?s ! 17"
    by auto
  have "?s ! 17 = Some 17" by simp
  with c2(4) have "l ! 0 = Some 17" by simp
  with full_table_facts(1,2) tg n sz c1 c2(1,2,3) show ?thesis by blast
qed

section \<open>Frame: what the two functions leave alone\<close>

lemma run_assigns_at_sound:
  assumes "d < length h" "run_assigns_at as d h = (h', res)"
  shows "length h' = length h \<and> (\<forall>i<length h. i \<noteq> d \<longrightarrow> h' ! i = h ! i) \<and>
     (case res of Inl e \<Rightarrow> run_assigns as (h ! d) = Inl e
      | Inr d' \<Rightarrow> d' = d \<and> run_assigns as (h ! d) = Inr (h' ! d))"
  using assms
proof (induction as arbitrary: h)
  case Nil
  then show ?case by auto
next
  case (Cons a as)
  show ?case
  proof (cases "snd a (h ! d)")
    case (Inl e)
    with Cons.prems show ?thesis by auto
  next
    case (Inr s)
    let ?h = "h[d := set_col (h ! d) (fst a) s]"
    from Inr Cons.prems have r: "run_assigns_at as d ?h = (h', res)" by simp
    have "d < length ?h" using Cons.prems(1) by simp
    from Cons.IH[OF this r] Cons.prems(1) Inr show ?thesis
      by (auto split: sum.splits)
  qed
qed

lemma copy_then_assign:
  assumes "r < length h" "run_assigns_at as (length h) (h @ [h ! r]) = (h', res)"
  shows "length h' = Suc (length h) \<and> take (length h) h' = h \<and>
     (case res of Inl e \<Rightarrow> run_assigns as (h ! r) = Inl e
      | Inr d \<Rightarrow> d = length h \<and> run_assigns as (h ! r) = Inr (h' ! d))"
proof -
  let ?h1 = "h @ [h ! r]"
  have "length h < length ?h1" by simp
  from run_assigns_at_sound[OF this assms(2)]
  have a: "length h' = length ?h1" "\<forall>i<length ?h1. i \<noteq> length h \<longrightarrow> h' ! i = ?h1 ! i"
    "case res of Inl e \<Rightarrow> run_assigns as (?h1 ! length h) = Inl e
      | Inr d' \<Rightarrow> d' = length h \<and> run_assigns as (?h1 ! length h) = Inr (h' ! length h)"
    by blast+
  have "take (length h) h' = h"
    using a(1,2) by (auto intro!: nth_equalityI simp: nth_append)
  moreover have "?h1 ! length h = h ! r" by simp
  ultimately show ?thesis using a(1,3) by (auto split: sum.splits)
qed

lemma two_row_table_facts:
  "wf_frame two_row_table" "index two_row_table = [0, 1]" "nrows two_row_table = 2"
  "\<forall>c\<in>set enrich_reads. c \<in> fst ` set (columns two_row_table)"
  "get_col two_row_table ''lag_1'' = Inr [Some 5, Some 7]"
  "get_col two_row_table ''generated_solar'' = Inr [Some 1, Some 2]"
  by (simp_all add: wf_frame_def two_row_table_def appliance_cols_def weekend_cols_def
      nrows_def enrich_reads_def get_col_def)

lemma get_col_enriched_value:
  assumes "cv \<in> set (enrich_values doy idx apps fu l g ho we)"
  shows "get_col (set_cols df (enrich_values doy idx apps fu l g ho we)) (fst cv) = Inr (snd cv)"
proof -
  from assms have "(fst cv, snd cv) \<in> set (enrich_values doy idx apps fu l g ho we)" by simp
  with distinct_enrich_values[of doy idx apps fu l g ho we]
  have "map_of (enrich_values doy idx apps fu l g ho we) (fst cv) = Some (snd cv)"
    by (rule map_of_is_SomeI)
  then show ?thesis by (simp add: get_col_enriched)
qed

text \<open>
  Claim C9, amended. Both functions work on a copy: the store they are run in keeps every
  table it had, the argument included, and gains one table, the result. The result has
  the index of the argument, and every column whose name is not one the function
  assigns is the argument's column. Every column whose name the function assigns holds
  the generated series in the result, computed from the argument's columns, whatever the
  argument had under that name: a column of the argument that bears the name of a
  generated column is overwritten, so the functions do not only add columns.
\<close>

theorem functions_leave_argument_and_other_columns:
  fixes h :: "'ts store"
  shows "(r < length h \<and> create_lag_features_at h r lags wins = (h', res) \<longrightarrow>
      length h' = Suc (length h) \<and> take (length h) h' = h \<and>
      (case res of
         Inl e \<Rightarrow> create_lag_features (h ! r) lags wins = Inl e
       | Inr d \<Rightarrow> d = length h \<and> create_lag_features (h ! r) lags wins = Inr (h' ! d) \<and>
           index (h' ! d) = index (h ! r) \<and>
           (\<forall>c. c \<notin> lag_name ` set lags \<union> roll_name ` set wins \<longrightarrow>
              get_col (h' ! d) c = get_col (h ! r) c) \<and>
           (\<forall>s. get_col (h ! r) target = Inr s \<longrightarrow>
              (\<forall>k\<in>set lags. get_col (h' ! d) (lag_name k) = Inr (shift k s)) \<and>
              (\<forall>w\<in>set wins. get_col (h' ! d) (roll_name w) = Inr (rolling_mean w (shift 1 s)))))) \<and>
    (r < length h \<and> enrich_features_at doy h r = (h'', res') \<longrightarrow>
      length h'' = Suc (length h) \<and> take (length h) h'' = h \<and>
      (case res' of
         Inl e \<Rightarrow> enrich_features doy (h ! r) = Inl e
       | Inr d \<Rightarrow> d = length h \<and> enrich_features doy (h ! r) = Inr (h'' ! d) \<and>
           index (h'' ! d) = index (h ! r) \<and>
           (\<forall>c. c \<notin> set enrich_cols \<longrightarrow> get_col (h'' ! d) c = get_col (h ! r) c) \<and>
           (\<exists>apps fu l g ho we.
              get_cols (h ! r) appliance_cols = Inr apps \<and> get_col (h ! r) ''furnace'' = Inr fu \<and>
              get_col (h ! r) ''lag_1'' = Inr l \<and> get_col (h ! r) ''generated_solar'' = Inr g \<and>
              get_col (h ! r) ''hour'' = Inr ho \<and> get_cols (h ! r) weekend_cols = Inr we \<and>
              (\<forall>cv\<in>set (enrich_values doy (index (h ! r)) apps fu l g ho we).
                 get_col (h'' ! d) (fst cv) = Inr (snd cv)))))"
proof (intro conjI impI)
  assume a: "r < length h \<and> create_lag_features_at h r lags wins = (h', res)"
  then have "run_assigns_at (lag_assigns lags wins) (length h) (h @ [h ! r]) = (h', res)"
    by (simp add: create_lag_features_at_def copy_frame_def)
  from copy_then_assign[OF _ this] a
  have c: "length h' = Suc (length h)" "take (length h) h' = h"
    "case res of Inl e \<Rightarrow> run_assigns (lag_assigns lags wins) (h ! r) = Inl e
      | Inr d \<Rightarrow> d = length h \<and> run_assigns (lag_assigns lags wins) (h ! r) = Inr (h' ! d)"
    by blast+
  have names: "fst ` set (lag_assigns lags wins :: 'ts assignment list)
      = lag_name ` set lags \<union> roll_name ` set wins"
    by (simp add: lag_assigns_def image_Un image_image lag_assign_def roll_assign_def)
  show "length h' = Suc (length h)" by (fact c(1))
  show "take (length h) h' = h" by (fact c(2))
  have gen: "(\<forall>k\<in>set lags. get_col out (lag_name k) = Inr (shift k s)) \<and>
      (\<forall>w\<in>set wins. get_col out (roll_name w) = Inr (rolling_mean w (shift 1 s)))"
    if "create_lag_features (h ! r) lags wins = Inr out" "get_col (h ! r) target = Inr s" for out s
    using create_lag_features_cols[OF that(2), of lags wins] that(1) by auto
  show "case res of
         Inl e \<Rightarrow> create_lag_features (h ! r) lags wins = Inl e
       | Inr d \<Rightarrow> d = length h \<and> create_lag_features (h ! r) lags wins = Inr (h' ! d) \<and>
           index (h' ! d) = index (h ! r) \<and>
           (\<forall>c. c \<notin> lag_name ` set lags \<union> roll_name ` set wins \<longrightarrow>
              get_col (h' ! d) c = get_col (h ! r) c) \<and>
           (\<forall>s. get_col (h ! r) target = Inr s \<longrightarrow>
              (\<forall>k\<in>set lags. get_col (h' ! d) (lag_name k) = Inr (shift k s)) \<and>
              (\<forall>w\<in>set wins. get_col (h' ! d) (roll_name w) = Inr (rolling_mean w (shift 1 s))))"
  proof (cases res)
    case (Inl e)
    with c(3) show ?thesis by (simp add: create_lag_features_def)
  next
    case (Inr d)
    with c(3) have d: "d = length h" "run_assigns (lag_assigns lags wins) (h ! r) = Inr (h' ! d)"
      by simp_all
    from d(2) have cl: "create_lag_features (h ! r) lags wins = Inr (h' ! d)"
      by (simp add: create_lag_features_def)
    have i: "index (h' ! d) = index (h ! r)" using d(2) by (rule run_assigns_index)
    have o: "\<forall>c. c \<notin> lag_name ` set lags \<union> roll_name ` set wins \<longrightarrow>
              get_col (h' ! d) c = get_col (h ! r) c"
      using run_assigns_other[OF d(2)] unfolding names by blast
    have g: "\<forall>s. get_col (h ! r) target = Inr s \<longrightarrow>
              (\<forall>k\<in>set lags. get_col (h' ! d) (lag_name k) = Inr (shift k s)) \<and>
              (\<forall>w\<in>set wins. get_col (h' ! d) (roll_name w) = Inr (rolling_mean w (shift 1 s)))"
      by (intro allI impI) (rule gen[OF cl])
    from d(1) cl i o g show ?thesis unfolding Inr sum.case by (intro conjI)
  qed
next
  assume a: "r < length h \<and> enrich_features_at doy h r = (h'', res')"
  then have "run_assigns_at (enrich_assigns doy) (length h) (h @ [h ! r]) = (h'', res')"
    by (simp add: enrich_features_at_def copy_frame_def)
  from copy_then_assign[OF _ this] a
  have c: "length h'' = Suc (length h)" "take (length h) h'' = h"
    "case res' of Inl e \<Rightarrow> run_assigns (enrich_assigns doy) (h ! r) = Inl e
      | Inr d \<Rightarrow> d = length h \<and> run_assigns (enrich_assigns doy) (h ! r) = Inr (h'' ! d)"
    by blast+
  have names: "fst ` set (enrich_assigns doy) = set enrich_cols"
    by (simp add: enrich_assigns_def enrich_cols_def)
  show "length h'' = Suc (length h)" by (fact c(1))
  show "take (length h) h'' = h" by (fact c(2))
  show "case res' of
         Inl e \<Rightarrow> enrich_features doy (h ! r) = Inl e
       | Inr d \<Rightarrow> d = length h \<and> enrich_features doy (h ! r) = Inr (h'' ! d) \<and>
           index (h'' ! d) = index (h ! r) \<and>
           (\<forall>c. c \<notin> set enrich_cols \<longrightarrow> get_col (h'' ! d) c = get_col (h ! r) c) \<and>
           (\<exists>apps fu l g ho we.
              get_cols (h ! r) appliance_cols = Inr apps \<and> get_col (h ! r) ''furnace'' = Inr fu \<and>
              get_col (h ! r) ''lag_1'' = Inr l \<and> get_col (h ! r) ''generated_solar'' = Inr g \<and>
              get_col (h ! r) ''hour'' = Inr ho \<and> get_cols (h ! r) weekend_cols = Inr we \<and>
              (\<forall>cv\<in>set (enrich_values doy (index (h ! r)) apps fu l g ho we).
                 get_col (h'' ! d) (fst cv) = Inr (snd cv)))"
  proof (cases res')
    case (Inl e)
    with c(3) show ?thesis by (simp add: enrich_features_def)
  next
    case (Inr d)
    with c(3) have d: "d = length h" "run_assigns (enrich_assigns doy) (h ! r) = Inr (h'' ! d)"
      by simp_all
    from d(2) have ef: "enrich_features doy (h ! r) = Inr (h'' ! d)"
      by (simp add: enrich_features_def)
    have i: "index (h'' ! d) = index (h ! r)" using d(2) by (rule run_assigns_index)
    have o: "\<forall>c. c \<notin> set enrich_cols \<longrightarrow> get_col (h'' ! d) c = get_col (h ! r) c"
      using run_assigns_other[OF d(2)] unfolding names by blast
    from ef obtain apps fu l g ho we where e:
      "get_cols (h ! r) appliance_cols = Inr apps" "get_col (h ! r) ''furnace'' = Inr fu"
      "get_col (h ! r) ''lag_1'' = Inr l" "get_col (h ! r) ''generated_solar'' = Inr g"
      "get_col (h ! r) ''hour'' = Inr ho" "get_cols (h ! r) weekend_cols = Inr we"
      "h'' ! d = set_cols (h ! r) (enrich_values doy (index (h ! r)) apps fu l g ho we)"
      by (rule enrich_features_InrE)
    have v: "\<forall>cv\<in>set (enrich_values doy (index (h ! r)) apps fu l g ho we).
                 get_col (h'' ! d) (fst cv) = Inr (snd cv)"
      unfolding e(7) by (intro ballI) (rule get_col_enriched_value)
    from e(1-6) v have g: "\<exists>apps fu l g ho we.
              get_cols (h ! r) appliance_cols = Inr apps \<and> get_col (h ! r) ''furnace'' = Inr fu \<and>
              get_col (h ! r) ''lag_1'' = Inr l \<and> get_col (h ! r) ''generated_solar'' = Inr g \<and>
              get_col (h ! r) ''hour'' = Inr ho \<and> get_cols (h ! r) weekend_cols = Inr we \<and>
              (\<forall>cv\<in>set (enrich_values doy (index (h ! r)) apps fu l g ho we).
                 get_col (h'' ! d) (fst cv) = Inr (snd cv))"
      by (intro exI conjI)
    from d(1) ef i o g show ?thesis unfolding Inr sum.case by (intro conjI)
  qed
qed

theorem functions_leave_argument_and_other_columns_witness:
  "(0::nat) < length [lagged_table] \<and> (0::nat) < length [two_row_table] \<and>
   get_col lagged_table ''lag_1'' = Inr [Some 7, Some 8] \<and>
   (\<exists>h' d. create_lag_features_at [lagged_table] 0 [1] [] = (h', Inr d) \<and> d = 1 \<and>
      length h' = 2 \<and> take 1 h' = [lagged_table] \<and>
      index (h' ! d) = index lagged_table \<and>
      get_col (h' ! d) ''use_house_overall'' = get_col lagged_table ''use_house_overall'' \<and>
      get_col (h' ! d) ''lag_1'' = Inr [None, Some 1]) \<and>
   (\<exists>h'' d. enrich_features_at day_of_hour [two_row_table] 0 = (h'', Inr d) \<and> d = 1 \<and>
      length h'' = 2 \<and> take 1 h'' = [two_row_table] \<and>
      index (h'' ! d) = index two_row_table \<and>
      get_col (h'' ! d) ''lag_1'' = get_col two_row_table ''lag_1'' \<and>
      get_col (h'' ! d) ''net_energy_lag_1'' = Inr [None, Some 6])"
proof -
  obtain h' res where a: "create_lag_features_at [lagged_table] 0 [1] [] = (h', res)"
    by (cases "create_lag_features_at [lagged_table] 0 [1] []") blast
  obtain h'' res' where b: "enrich_features_at day_of_hour [two_row_table] 0 = (h'', res')"
    by (cases "enrich_features_at day_of_hour [two_row_table] 0") blast
  note t = functions_leave_argument_and_other_columns[where r = 0 and h = "[lagged_table]"
      and lags = "[1]" and wins = "[]" and h' = h' and res = res, THEN conjunct1]
  note u = functions_leave_argument_and_other_columns[where r = 0 and h = "[two_row_table]"
      and doy = day_of_hour and h'' = h'' and res' = res', THEN conjunct2]
  have tg: "get_col lagged_table target = Inr [Some 1, Some 2]"
    by (simp add: lagged_table_def get_col_def target_def)
  have l0: "get_col lagged_table ''lag_1'' = Inr [Some 7, Some 8]"
    by (simp add: lagged_table_def get_col_def)
  from create_lag_features_cols[OF tg, of "[1]" "[]"]
  obtain out where o: "create_lag_features lagged_table [1] [] = Inr out" by blast
  from t a o obtain d where d: "res = Inr d" "d = 1" "length h' = 2" "take 1 h' = [lagged_table]"
    "index (h' ! d) = index lagged_table"
    "\<forall>c. c \<notin> lag_name ` set [1] \<union> roll_name ` set [] \<longrightarrow>
        get_col (h' ! d) c = get_col lagged_table c"
    "\<forall>s. get_col lagged_table target = Inr s \<longrightarrow>
        (\<forall>k\<in>set [1]. get_col (h' ! d) (lag_name k) = Inr (shift k s)) \<and>
        (\<forall>w\<in>set []. get_col (h' ! d) (roll_name w) = Inr (rolling_mean w (shift 1 s)))"
    by (cases res) auto
  have "''use_house_overall'' \<notin> lag_name ` set [1] \<union> roll_name ` set []"
    using names_distinct[unfolded target_def] by auto
  with d(6) have d7: "get_col (h' ! d) ''use_house_overall'' = get_col lagged_table ''use_house_overall''"
    by blast
  from d(7)[rule_format, OF tg, THEN conjunct1]
  have "get_col (h' ! d) (lag_name 1) = Inr (shift 1 [Some 1, Some 2])" by simp
  then have d8: "get_col (h' ! d) ''lag_1'' = Inr [None, Some 1]"
    unfolding lag_name_literals by (simp add: shift_def)
  from enrich_succeeds[OF two_row_table_facts(4), of day_of_hour]
  obtain out' where o': "enrich_features day_of_hour two_row_table = Inr out'" by blast
  from u b o' obtain e where e: "res' = Inr e" "e = 1" "length h'' = 2"
    "take 1 h'' = [two_row_table]" "index (h'' ! e) = index two_row_table"
    "\<forall>c. c \<notin> set enrich_cols \<longrightarrow> get_col (h'' ! e) c = get_col two_row_table c"
    "\<exists>apps fu l g ho we.
        get_cols two_row_table appliance_cols = Inr apps \<and> get_col two_row_table ''furnace'' = Inr fu \<and>
        get_col two_row_table ''lag_1'' = Inr l \<and> get_col two_row_table ''generated_solar'' = Inr g \<and>
        get_col two_row_table ''hour'' = Inr ho \<and> get_cols two_row_table weekend_cols = Inr we \<and>
        (\<forall>cv\<in>set (enrich_values day_of_hour (index two_row_table) apps fu l g ho we).
           get_col (h'' ! e) (fst cv) = Inr (snd cv))"
    by (cases res') auto
  have "''lag_1'' \<notin> set enrich_cols" by (simp add: enrich_cols_def)
  with e(6) have e7: "get_col (h'' ! e) ''lag_1'' = get_col two_row_table ''lag_1''" by blast
  from e(7) obtain apps fu l g ho we where v:
    "get_col two_row_table ''lag_1'' = Inr l" "get_col two_row_table ''generated_solar'' = Inr g"
    "\<forall>cv\<in>set (enrich_values day_of_hour (index two_row_table) apps fu l g ho we).
           get_col (h'' ! e) (fst cv) = Inr (snd cv)"
    by blast
  from v(1,2) have lg: "l = [Some 5, Some 7]" "g = [Some 1, Some 2]"
    by (simp_all add: two_row_table_facts(5,6))
  have "(''net_energy_lag_1'', map2 cell_sub l (shift 1 g))
      \<in> set (enrich_values day_of_hour (index two_row_table) apps fu l g ho we)"
    by (simp add: enrich_values_def)
  from v(3)[rule_format, OF this]
  have e8: "get_col (h'' ! e) ''net_energy_lag_1'' = Inr [None, Some 6]"
    unfolding lg by (simp add: shift_def cell_sub_def)
  from a d(1-5) d7 d8 have A: "\<exists>h' d. create_lag_features_at [lagged_table] 0 [1] [] = (h', Inr d) \<and> d = 1 \<and>
      length h' = 2 \<and> take 1 h' = [lagged_table] \<and>
      index (h' ! d) = index lagged_table \<and>
      get_col (h' ! d) ''use_house_overall'' = get_col lagged_table ''use_house_overall'' \<and>
      get_col (h' ! d) ''lag_1'' = Inr [None, Some 1]"
    by auto
  from b e(1-5) e7 e8 have B: "\<exists>h'' d. enrich_features_at day_of_hour [two_row_table] 0 = (h'', Inr d) \<and> d = 1 \<and>
      length h'' = 2 \<and> take 1 h'' = [two_row_table] \<and>
      index (h'' ! d) = index two_row_table \<and>
      get_col (h'' ! d) ''lag_1'' = get_col two_row_table ''lag_1'' \<and>
      get_col (h'' ! d) ''net_energy_lag_1'' = Inr [None, Some 6]"
    by auto
  from l0 A B show ?thesis by simp
qed

text \<open>The claim as stated fails on a table that already has a column \<open>lag_1\<close>: the call
  with lag 1 replaces it. The notebook's own forecast call is such a call: the spillover
  rows bring the training segment's \<open>lag_1\<close>, whose first cell, 5, becomes missing.\<close>

theorem generated_column_is_overwritten_counterexample:
  "column_before_after lagged_table [1] [] ''lag_1''
     = (Inr [Some 7, Some 8], Inr [None, Some 1]) \<and>
   map_sum id (\<lambda>cc. map_prod (map_sum id (take 1)) (map_sum id (take 1))
        (column_before_after cc forecast_lags forecast_windows ''lag_1''))
      (forecast_call_input table_20)
     = Inr (Inr [Some 5], Inr [None])"
proof -
  have tg: "get_col lagged_table target = Inr [Some 1, Some 2]"
    by (simp add: lagged_table_def get_col_def target_def)
  from create_lag_features_cols[OF tg, of "[1]" "[]"]
  obtain out where o: "create_lag_features lagged_table [1] [] = Inr out"
    "get_col out (lag_name 1) = Inr (shift 1 [Some 1, Some 2])"
    by auto
  have A: "column_before_after lagged_table [1] [] ''lag_1''
     = (Inr [Some 7, Some 8], Inr [None, Some 1])"
    using o unfolding lag_name_literals
    by (simp add: column_before_after_def shift_def)
      (simp add: lagged_table_def get_col_def)
  let ?s = "map (\<lambda>i. Some (real i)) [0..<20] :: series"
  let ?tr0 = "head_rows 18 table_20" and ?fc0 = "drop_rows 18 table_20"
  have sp: "split (sort_index table_20) = (?tr0, ?fc0)"
    unfolding table_20_def sort_index_hourly_table split_eq nrows_hourly_table by simp
  from create_lag_features_cols[OF table_20_segments(3), of train_lags train_windows]
  obtain train where t: "create_lag_features ?tr0 train_lags train_windows = Inr train"
    "index train = index ?tr0"
    "\<forall>k\<in>set train_lags. get_col train (lag_name k) = Inr (shift k (take 18 ?s))"
    "\<forall>c. c \<notin> lag_name ` set train_lags \<union> roll_name ` set train_windows \<longrightarrow>
        get_col train c = get_col ?tr0 c"
    by blast
  have nt: "nrows train = 18" by (simp add: nrows_def t(2) table_20_def)
  have l1: "get_col train ''lag_1'' = Inr (shift 1 (take 18 ?s))"
    using t(3) unfolding lag_name_literals[symmetric] by (simp add: train_lags_def)
  have "target \<notin> lag_name ` set train_lags \<union> roll_name ` set train_windows" by auto
  with t(4) have tt: "get_col train target = Inr (take 18 ?s)"
    using table_20_segments(3) by simp
  let ?cc = "forecast_input train ?fc0"
  let ?h = "drop 6 (take 18 ?s) @ drop 18 ?s"
  have cl: "get_col ?cc ''lag_1'' = Inr (drop 6 (shift 1 (take 18 ?s)) @ replicate 2 None)"
    using l1
    by (simp add: forecast_input_def get_col_concat_frames names_iff_get_col col_or_nan_get_col
        tail_rows_def get_col_drop_rows nt)
      (simp add: table_20_def get_col_hourly_table target_def)
  have ct: "get_col ?cc target = Inr ?h"
    using tt table_20_segments(4)
    by (simp add: forecast_input_def get_col_concat_frames names_iff_get_col col_or_nan_get_col
        tail_rows_def get_col_drop_rows nt)
  from create_lag_features_cols[OF ct, of forecast_lags forecast_windows]
  obtain fcf where f: "create_lag_features ?cc forecast_lags forecast_windows = Inr fcf"
    "\<forall>k\<in>set forecast_lags. get_col fcf (lag_name k) = Inr (shift k ?h)"
    by blast
  have fl: "get_col fcf ''lag_1'' = Inr (shift 1 ?h)"
    using f(2) unfolding lag_name_literals[symmetric] by (simp add: forecast_lags_def)
  have "shift 1 (take 18 ?s) ! 6 = Some 5"
    using nth_shift[of 6 "take 18 ?s" 1] by simp
  then have "(drop 6 (shift 1 (take 18 ?s)) @ replicate 2 None) ! 0 = Some 5"
    by (simp add: nth_append)
  then have v1: "take 1 (drop 6 (shift 1 (take 18 ?s)) @ replicate 2 None) = [Some 5]"
    using take_Suc_conv_app_nth[of 0 "drop 6 (shift 1 (take 18 ?s)) @ replicate 2 None"]
    by simp
  have v2: "take 1 (shift 1 ?h) = [None]"
    by (simp add: shift_def)
  have B: "map_sum id (\<lambda>cc. map_prod (map_sum id (take 1)) (map_sum id (take 1))
        (column_before_after cc forecast_lags forecast_windows ''lag_1''))
      (forecast_call_input table_20)
     = Inr (Inr [Some 5], Inr [None])"
  proof -
    have fci: "forecast_call_input table_20 = Inr ?cc"
      by (simp add: forecast_call_input_def sp t(1))
    have cba: "column_before_after ?cc forecast_lags forecast_windows ''lag_1''
        = (Inr (drop 6 (shift 1 (take 18 ?s)) @ replicate 2 None), Inr (shift 1 ?h))"
      by (simp only: column_before_after_def cl f(1) sum.case fl)
    show ?thesis
      by (simp only: fci map_sum.simps cba map_prod_simp v1 v2)
  qed
  from A B show ?thesis by (rule conjI)
qed

section \<open>Enrichment: idempotence and the split\<close>

lemma assign_col_same: "map_of cs c = Some s \<Longrightarrow> assign_col cs c s = cs"
  by (induction cs) auto

lemma set_col_same: "get_col d c = Inr s \<Longrightarrow> set_col d c s = d"
  by (simp add: set_col_def get_col_Inr_iff assign_col_same)

lemma set_cols_same:
  "\<forall>cv\<in>set cvs. get_col d (fst cv) = Inr (snd cv) \<Longrightarrow> set_cols d cvs = d"
  by (induction cvs) (simp_all add: set_cols_Cons set_col_same, simp add: set_cols_def)

lemma get_cols_other:
  assumes "\<forall>c\<in>set cs. get_col d' c = get_col d c"
  shows "get_cols d' cs = get_cols d cs"
  using assms by (induction cs) (auto split: sum.splits)

lemma enrich_reads_not_assigned: "c \<in> set enrich_reads \<Longrightarrow> c \<notin> set enrich_cols"
  by (auto simp: enrich_reads_def enrich_cols_def appliance_cols_def weekend_cols_def)

lemma enrich_idempotent:
  assumes "enrich_features doy df = Inr out"
  shows "enrich_features doy out = Inr out"
proof -
  from assms obtain apps fu l g ho we where e:
    "get_cols df appliance_cols = Inr apps" "get_col df ''furnace'' = Inr fu"
    "get_col df ''lag_1'' = Inr l" "get_col df ''generated_solar'' = Inr g"
    "get_col df ''hour'' = Inr ho" "get_cols df weekend_cols = Inr we"
    "out = set_cols df (enrich_values doy (index df) apps fu l g ho we)"
    by (rule enrich_features_InrE)
  let ?V = "enrich_values doy (index df) apps fu l g ho we"
  have same: "get_col out c = get_col df c" if "c \<in> set enrich_reads" for c
    unfolding e(7) using enrich_reads_not_assigned[OF that] by (rule get_col_enriched_other)
  have "get_cols out appliance_cols = Inr apps" "get_cols out weekend_cols = Inr we"
    using get_cols_other[of appliance_cols out df] get_cols_other[of weekend_cols out df]
      same e(1,6) by (simp_all add: enrich_reads_def)
  moreover have "get_col out ''furnace'' = Inr fu" "get_col out ''lag_1'' = Inr l"
    "get_col out ''generated_solar'' = Inr g" "get_col out ''hour'' = Inr ho"
    using same e(2-5) by (simp_all add: enrich_reads_def)
  moreover have "index out = index df" by (simp add: e(7))
  ultimately have "enrich_features doy out = Inr (set_cols out ?V)"
    by (simp add: enrich_features_eq)
  moreover have "set_cols out ?V = out"
  proof (rule set_cols_same, rule ballI)
    fix cv assume "cv \<in> set ?V"
    then have "map_of ?V (fst cv) = Some (snd cv)"
      using distinct_enrich_values[of doy "index df" apps fu l g ho we] by simp
    then show "get_col out (fst cv) = Inr (snd cv)"
      unfolding e(7) get_col_enriched by simp
  qed
  ultimately show ?thesis by simp
qed

subsection \<open>The first rows of a table\<close>

lemma assign_col_map:
  "map (\<lambda>cs. (fst cs, f (snd cs))) (assign_col cs c s)
     = assign_col (map (\<lambda>cs. (fst cs, f (snd cs))) cs) c (f s)"
  by (induction cs) auto

lemma head_rows_set_col: "head_rows k (set_col d c s) = set_col (head_rows k d) c (take k s)"
  by (simp add: head_rows_def set_col_def assign_col_map)

lemma head_rows_set_cols:
  "head_rows k (set_cols d cvs) = set_cols (head_rows k d) (map (\<lambda>cv. (fst cv, take k (snd cv))) cvs)"
  by (induction cvs arbitrary: d) (simp add: set_cols_def, simp add: set_cols_Cons head_rows_set_col)

lemma get_cols_head_rows:
  "get_cols (head_rows k d) cs = map_sum id (map (take k)) (get_cols d cs)"
  by (induction cs) (auto simp: get_col_head_rows split: sum.splits)

lemma row_sum_take:
  "row_sum (length (take k idx)) (map (take k) cols) = take k (row_sum (length idx) cols)"
proof (rule nth_equalityI)
  show "length (row_sum (length (take k idx)) (map (take k) cols))
      = length (take k (row_sum (length idx) cols))"
    by (simp add: row_sum_def min.commute)
next
  fix i assume "i < length (row_sum (length (take k idx)) (map (take k) cols))"
  then have i: "i < k" "i < length idx" by (simp_all add: row_sum_def)
  have "map (\<lambda>s. nan_to_zero (s ! i)) (map (take k) cols) = map (\<lambda>s. nan_to_zero (s ! i)) cols"
    using i by (simp add: comp_def)
  with i show "row_sum (length (take k idx)) (map (take k) cols) ! i
      = take k (row_sum (length idx) cols) ! i"
    by (simp add: row_sum_def del: map_map)
qed

lemma shift1_take: "shift 1 (take k g) = take k (shift 1 g)"
  by (auto intro!: nth_equalityI simp: nth_shift)

lemma enrich_values_take:
  "enrich_values doy (take k idx) (map (take k) apps) (take k fu) (take k l) (take k g)
       (take k ho) (map (take k) we)
     = map (\<lambda>cv. (fst cv, take k (snd cv))) (enrich_values doy idx apps fu l g ho we)"
  unfolding enrich_values_def dayofyear_col_def row_sum_take shift1_take
  by (simp add: take_map take_zip)

lemma enrich_head_rows:
  "enrich_features doy (head_rows k df) = map_sum id (head_rows k) (enrich_features doy df)"
  unfolding enrich_features_eq get_cols_head_rows get_col_head_rows
  by (auto split: sum.splits simp: head_rows_set_cols enrich_values_take)

subsection \<open>The last rows of a table\<close>

lemma get_cols_drop_rows:
  "get_cols (drop_rows k d) cs = map_sum id (map (drop k)) (get_cols d cs)"
  by (induction cs) (auto simp: get_col_drop_rows split: sum.splits)

lemma get_cols_lengths:
  "wf_frame d \<Longrightarrow> get_cols d cs = Inr ss \<Longrightarrow> \<forall>s\<in>set ss. length s = nrows d"
  by (induction cs arbitrary: ss) (auto split: sum.splits dest: wf_frame_col_length)

lemma row_sum_drop:
  assumes "\<forall>s\<in>set cols. length s = length idx"
  shows "row_sum (length (drop k idx)) (map (drop k) cols) = drop k (row_sum (length idx) cols)"
proof (rule nth_equalityI)
  show "length (row_sum (length (drop k idx)) (map (drop k) cols))
      = length (drop k (row_sum (length idx) cols))"
    by (simp add: row_sum_def)
next
  fix i assume "i < length (row_sum (length (drop k idx)) (map (drop k) cols))"
  then have i: "k + i < length idx" "i < length idx - k" by (simp_all add: row_sum_def)
  have "map (\<lambda>s. nan_to_zero (s ! i)) (map (drop k) cols)
      = map (\<lambda>s. nan_to_zero (s ! (k + i))) cols"
    unfolding map_map comp_def
  proof (rule map_cong[OF refl])
    fix s assume "s \<in> set cols"
    with assms i have "k \<le> length s" by simp
    then show "nan_to_zero (drop k s ! i) = nan_to_zero (s ! (k + i))" by simp
  qed
  with i show "row_sum (length (drop k idx)) (map (drop k) cols) ! i
      = drop k (row_sum (length idx) cols) ! i"
    by (simp add: row_sum_def del: map_map)
qed

lemma enrich_values_drop:
  assumes "\<forall>s\<in>set apps. length s = length idx" "\<forall>s\<in>set we. length s = length idx"
    and "c \<noteq> ''net_energy_lag_1''"
  shows "map_of (enrich_values doy (drop k idx) (map (drop k) apps) (drop k fu) (drop k l)
       (drop k g) (drop k ho) (map (drop k) we)) c
     = map_option (drop k) (map_of (enrich_values doy idx apps fu l g ho we) c)"
  unfolding enrich_values_def dayofyear_col_def row_sum_drop[OF assms(1)] row_sum_drop[OF assms(2)]
  using assms(3) by (simp add: drop_map)

lemma net_energy_drop:
  assumes "length l = n" "length g = n" "j < n - k" "0 < j"
  shows "map2 cell_sub (drop k l) (shift 1 (drop k g)) ! j = map2 cell_sub l (shift 1 g) ! (k + j)"
proof -
  have kj: "k + j < n" using assms(3) by simp
  have "shift 1 (drop k g) ! j = drop k g ! (j - 1)"
    using nth_shift[of j "drop k g" 1] assms by simp
  also have "\<dots> = g ! (k + j - 1)" using assms kj by simp
  also have "\<dots> = shift 1 g ! (k + j)"
    using nth_shift[of "k + j" g 1] assms kj by simp
  finally show ?thesis using assms kj by simp
qed

lemma enrich_drop_rows:
  assumes "wf_frame df" "enrich_features doy df = Inr out"
  shows "\<exists>out'. enrich_features doy (drop_rows k df) = Inr out' \<and>
     index out' = drop k (index out) \<and>
     (\<forall>c. c \<noteq> ''net_energy_lag_1'' \<longrightarrow> get_col out' c = map_sum id (drop k) (get_col out c)) \<and>
     (\<exists>col col'. get_col out ''net_energy_lag_1'' = Inr col \<and>
        get_col out' ''net_energy_lag_1'' = Inr col' \<and>
        length col = nrows df \<and> length col' = nrows df - k \<and>
        (\<forall>j<nrows df - k. 0 < j \<longrightarrow> col' ! j = col ! (k + j)))"
proof -
  from assms(2) obtain apps fu l g ho we where e:
    "get_cols df appliance_cols = Inr apps" "get_col df ''furnace'' = Inr fu"
    "get_col df ''lag_1'' = Inr l" "get_col df ''generated_solar'' = Inr g"
    "get_col df ''hour'' = Inr ho" "get_cols df weekend_cols = Inr we"
    "out = set_cols df (enrich_values doy (index df) apps fu l g ho we)"
    by (rule enrich_features_InrE)
  let ?V = "enrich_values doy (index df) apps fu l g ho we"
  let ?V' = "enrich_values doy (drop k (index df)) (map (drop k) apps) (drop k fu) (drop k l)
       (drop k g) (drop k ho) (map (drop k) we)"
  let ?out' = "set_cols (drop_rows k df) ?V'"
  have la: "\<forall>s\<in>set apps. length s = length (index df)"
    and lw: "\<forall>s\<in>set we. length s = length (index df)"
    using get_cols_lengths[OF assms(1)] e(1,6) by (simp_all add: nrows_def)
  have ll: "length l = nrows df" and lg: "length g = nrows df"
    using wf_frame_col_length[OF assms(1)] e(3,4) by simp_all
  have r: "enrich_features doy (drop_rows k df) = Inr ?out'"
    by (simp add: enrich_features_eq get_cols_drop_rows get_col_drop_rows e(1-6))
  have i: "index ?out' = drop k (index out)" by (simp add: e(7))
  have c: "\<forall>c. c \<noteq> ''net_energy_lag_1'' \<longrightarrow> get_col ?out' c = map_sum id (drop k) (get_col out c)"
  proof (intro allI impI)
    fix c :: string assume "c \<noteq> ''net_energy_lag_1''"
    from enrich_values_drop[OF la lw this, of doy k fu l g ho]
    show "get_col ?out' c = map_sum id (drop k) (get_col out c)"
      unfolding e(7) get_col_enriched
      by (cases "map_of ?V c") (simp_all add: get_col_drop_rows)
  qed
  let ?col = "map2 cell_sub l (shift 1 g)"
  let ?col' = "map2 cell_sub (drop k l) (shift 1 (drop k g))"
  have n1: "get_col out ''net_energy_lag_1'' = Inr ?col"
    unfolding e(7) get_col_enriched by (simp add: enrich_values_def)
  have n2: "get_col ?out' ''net_energy_lag_1'' = Inr ?col'"
    unfolding get_col_enriched by (simp add: enrich_values_def)
  have n3: "length ?col = nrows df" "length ?col' = nrows df - k" using ll lg by simp_all
  have n4: "\<forall>j<nrows df - k. 0 < j \<longrightarrow> ?col' ! j = ?col ! (k + j)"
    using net_energy_drop[OF ll lg] by blast
  have "get_col out ''net_energy_lag_1'' = Inr ?col \<and>
        get_col ?out' ''net_energy_lag_1'' = Inr ?col' \<and>
        length ?col = nrows df \<and> length ?col' = nrows df - k \<and>
        (\<forall>j<nrows df - k. 0 < j \<longrightarrow> ?col' ! j = ?col ! (k + j))"
    by (intro conjI) (fact n1 n2 n3 n4)+
  then have "\<exists>col col'. get_col out ''net_energy_lag_1'' = Inr col \<and>
        get_col ?out' ''net_energy_lag_1'' = Inr col' \<and>
        length col = nrows df \<and> length col' = nrows df - k \<and>
        (\<forall>j<nrows df - k. 0 < j \<longrightarrow> col' ! j = col ! (k + j))"
    by (intro exI)
  with r i c show ?thesis by blast
qed

lemma enrich_net_energy_col:
  assumes "enrich_features doy d = Inr out"
    and "get_col d ''lag_1'' = Inr l" "get_col d ''generated_solar'' = Inr g"
  shows "get_col out ''net_energy_lag_1'' = Inr (map2 cell_sub l (shift 1 g))"
proof -
  from assms(1) obtain apps fu l' g' ho we where e:
    "get_col d ''lag_1'' = Inr l'" "get_col d ''generated_solar'' = Inr g'"
    "out = set_cols d (enrich_values doy (index d) apps fu l' g' ho we)"
    by (rule enrich_features_InrE)
  from e(1,2) assms(2,3) have "l' = l" "g' = g" by simp_all
  then show ?thesis unfolding e(3) get_col_enriched by (simp add: enrich_values_def)
qed

text \<open>
  Claim C7, amended. \<open>enrich_features\<close> is idempotent. It commutes with the split on the
  training side: enriching the first \<open>k\<close> rows gives the first \<open>k\<close> rows of the enriched
  table. On the forecast side, enriching the rows from \<open>k\<close> on succeeds when enriching the
  table does, and gives, row for row, the same values as the enriched table in every
  column except \<open>net_energy_lag_1\<close>, and in \<open>net_energy_lag_1\<close> on every row but the first
  of the segment.
\<close>

theorem enrich_idempotent_and_split:
  fixes df :: "'ts frame"
  shows "(enrich_features doy df = Inr out \<longrightarrow> enrich_features doy out = Inr out) \<and>
    enrich_features doy (head_rows k df) = map_sum id (head_rows k) (enrich_features doy df) \<and>
    (wf_frame df \<and> enrich_features doy df = Inr out \<longrightarrow>
      (\<exists>out'. enrich_features doy (drop_rows k df) = Inr out' \<and>
         index out' = drop k (index out) \<and>
         (\<forall>c. c \<noteq> ''net_energy_lag_1'' \<longrightarrow>
            get_col out' c = map_sum id (drop k) (get_col out c)) \<and>
         (\<exists>col col'. get_col out ''net_energy_lag_1'' = Inr col \<and>
            get_col out' ''net_energy_lag_1'' = Inr col' \<and>
            length col = nrows df \<and> length col' = nrows df - k \<and>
            (\<forall>j<nrows df - k. 0 < j \<longrightarrow> col' ! j = col ! (k + j)))))"
  using enrich_idempotent[of doy df out] enrich_head_rows[of doy k df]
    enrich_drop_rows[of df doy out k]
  by blast

theorem enrich_idempotent_and_split_witness:
  "wf_frame two_row_table \<and>
   (\<exists>out out'. enrich_features day_of_hour two_row_table = Inr out \<and>
      enrich_features day_of_hour out = Inr out \<and>
      enrich_features day_of_hour (head_rows 1 two_row_table) = Inr (head_rows 1 out) \<and>
      enrich_features day_of_hour (drop_rows 1 two_row_table) = Inr out' \<and>
      get_col out' ''furnace_on'' = map_sum id (drop 1) (get_col out ''furnace_on''))"
proof -
  from enrich_succeeds[OF two_row_table_facts(4), of day_of_hour]
  obtain out where o: "enrich_features day_of_hour two_row_table = Inr out" by blast
  note t = enrich_idempotent_and_split[of day_of_hour two_row_table out 1]
  from t o have a: "enrich_features day_of_hour out = Inr out" by blast
  from t o have b: "enrich_features day_of_hour (head_rows 1 two_row_table) = Inr (head_rows 1 out)"
    by simp
  from t o two_row_table_facts(1)
  obtain out' where c: "enrich_features day_of_hour (drop_rows 1 two_row_table) = Inr out'"
    "\<forall>c. c \<noteq> ''net_energy_lag_1'' \<longrightarrow> get_col out' c = map_sum id (drop 1) (get_col out c)"
    by blast
  from c(2) have "get_col out' ''furnace_on'' = map_sum id (drop 1) (get_col out ''furnace_on'')"
    by simp
  with two_row_table_facts(1) o a b c(1) show ?thesis by blast
qed

text \<open>The claim as stated fails on two rows split after the first: enriched on its own,
  the forecast row has a missing \<open>net_energy_lag_1\<close>, while the enriched table has
  \<open>7 - 1 = 6\<close> on that row.\<close>

theorem net_energy_differs_across_split_counterexample:
  "enriched_column day_of_hour (drop_rows 1 two_row_table) ''net_energy_lag_1'' = Inr [None] \<and>
   map_sum id (drop 1) (enriched_column day_of_hour two_row_table ''net_energy_lag_1'')
     = Inr [Some 6]"
proof -
  from enrich_succeeds[OF two_row_table_facts(4), of day_of_hour]
  obtain out where o: "enrich_features day_of_hour two_row_table = Inr out" by blast
  from enrich_drop_rows[OF two_row_table_facts(1) o, of 1]
  obtain out' where o': "enrich_features day_of_hour (drop_rows 1 two_row_table) = Inr out'"
    by blast
  have "get_col out ''net_energy_lag_1''
      = Inr (map2 cell_sub [Some 5, Some 7] (shift 1 [Some 1, Some 2]))"
    by (rule enrich_net_energy_col[OF o two_row_table_facts(5,6)])
  then have a: "get_col out ''net_energy_lag_1'' = Inr [None, Some 6]"
    by (simp add: shift_def cell_sub_def)
  have "get_col out' ''net_energy_lag_1''
      = Inr (map2 cell_sub (drop 1 [Some 5, Some 7]) (shift 1 (drop 1 [Some 1, Some 2])))"
    by (rule enrich_net_energy_col[OF o'])
      (simp_all only: get_col_drop_rows two_row_table_facts(5,6) map_sum.simps id_apply)
  then have b: "get_col out' ''net_energy_lag_1'' = Inr [None]"
    by (simp add: shift_def cell_sub_def)
  show ?thesis by (simp only: enriched_column_def o o' sum.case a b map_sum.simps)
      simp
qed

end
